theory Spec2Isabelle
  imports Complex_Main
begin

section \<open>Arrays as the code has them\<close>

text \<open>
  The source (\<^verbatim>\<open>doa/cssm.py\<close>, class \<^verbatim>\<open>CSSM\<close>) works on numpy arrays of complex
  numbers.  A numpy array is a shape together with its entries, and an array with a
  dimension of size zero still has a shape, so a two-dimensional array is modelled as a
  value \<open>Mat r c rs\<close>: \<open>r\<close> rows, \<open>c\<close> columns and the list \<open>rs\<close> of its rows.  Entries
  are exact complex numbers; rounding of the floating-point arithmetic is outside the
  model.  Every numpy operation that raises in the source returns an error here.
\<close>

datatype error = ValueError | IndexError | LinAlgError

datatype cmat = Mat (nrows: nat) (ncols: nat) (rows: "complex list list")

definition mk_mat :: "nat \<Rightarrow> nat \<Rightarrow> (nat \<Rightarrow> nat \<Rightarrow> complex) \<Rightarrow> cmat" where
  "mk_mat r c f = Mat r c (map (\<lambda>i. map (\<lambda>j. f i j) [0..<c]) [0..<r])"

definition ent :: "cmat \<Rightarrow> nat \<Rightarrow> nat \<Rightarrow> complex" where
  "ent A i j = rows A ! i ! j"

definition wf_mat :: "cmat \<Rightarrow> bool" where
  "wf_mat A \<longleftrightarrow> length (rows A) = nrows A \<and> list_all (\<lambda>r. length r = ncols A) (rows A)"

text \<open>A three-dimensional array (the snapshot tensor \<^verbatim>\<open>X\<close>, the steering dictionary
  \<^verbatim>\<open>mode_vec\<close>): its shape and its entries.\<close>

record tensor3 =
  dim0 :: nat
  dim1 :: nat
  dim2 :: nat
  at3 :: "nat \<Rightarrow> nat \<Rightarrow> nat \<Rightarrow> complex"

definition bind_err :: "'e + 'a \<Rightarrow> ('a \<Rightarrow> 'e + 'b) \<Rightarrow> 'e + 'b" where
  "bind_err r f = (case r of Inl e \<Rightarrow> Inl e | Inr x \<Rightarrow> f x)"

subsection \<open>The numpy operations the source calls\<close>

text \<open>\<^verbatim>\<open>np.zeros((r, c))\<close> and \<^verbatim>\<open>np.identity(n)\<close>.\<close>

definition np_zeros :: "nat \<Rightarrow> nat \<Rightarrow> cmat" where
  "np_zeros r c = mk_mat r c (\<lambda>i j. 0)"

definition np_identity :: "nat \<Rightarrow> cmat" where
  "np_identity n = mk_mat n n (\<lambda>i j. if i = j then 1 else 0)"

text \<open>\<^verbatim>\<open>np.concatenate((A, B), axis=1)\<close> and \<^verbatim>\<open>np.c_[A, B]\<close>: the columns of \<open>B\<close> after
  those of \<open>A\<close>; a \<^verbatim>\<open>ValueError\<close> when the row counts differ.\<close>

definition np_concatenate_axis1 :: "cmat \<Rightarrow> cmat \<Rightarrow> error + cmat" where
  "np_concatenate_axis1 A B =
     (if nrows A = nrows B
      then Inr (mk_mat (nrows A) (ncols A + ncols B)
                  (\<lambda>i j. if j < ncols A then ent A i j else ent B i (j - ncols A)))
      else Inl ValueError)"

text \<open>\<^verbatim>\<open>A.T\<close> and \<^verbatim>\<open>np.conjugate(A)\<close>.\<close>

definition np_T :: "cmat \<Rightarrow> cmat" where
  "np_T A = mk_mat (ncols A) (nrows A) (\<lambda>i j. ent A j i)"

definition np_conjugate :: "cmat \<Rightarrow> cmat" where
  "np_conjugate A = mk_mat (nrows A) (ncols A) (\<lambda>i j. cnj (ent A i j))"

text \<open>\<^verbatim>\<open>np.dot(A, B)\<close> on two-dimensional arrays: the matrix product; a
  \<^verbatim>\<open>ValueError\<close> when the shapes are not aligned.\<close>

definition np_dot :: "cmat \<Rightarrow> cmat \<Rightarrow> error + cmat" where
  "np_dot A B =
     (if ncols A = nrows B
      then Inr (mk_mat (nrows A) (ncols B)
                  (\<lambda>i j. sum_list (map (\<lambda>k. ent A i k * ent B k j) [0..<ncols A])))
      else Inl ValueError)"

text \<open>\<^verbatim>\<open>A + B\<close> on arrays of one shape.  (numpy would broadcast a dimension of size one;
  in the source both operands are \<open>M \<times> M\<close> whenever the sum is reached.)\<close>

definition np_add :: "cmat \<Rightarrow> cmat \<Rightarrow> error + cmat" where
  "np_add A B =
     (if nrows A = nrows B \<and> ncols A = ncols B
      then Inr (mk_mat (nrows A) (ncols A) (\<lambda>i j. ent A i j + ent B i j))
      else Inl ValueError)"

subsection \<open>Matrix inversion\<close>

text \<open>
  \<^verbatim>\<open>np.linalg.inv\<close> returns the inverse of a square matrix and raises
  \<^verbatim>\<open>LinAlgError\<close> when the matrix is not square or is singular.  It is modelled by
  Gauss-Jordan elimination in exact arithmetic on the rows of \<open>[A | I]\<close>, kept as pairs
  (row of the left block, row of the right block): for each column \<open>c\<close> in turn, the first
  row at or below \<open>c\<close> with a non-zero entry in column \<open>c\<close> is swapped into place and
  scaled, and column \<open>c\<close> is cleared in every other row.  No pivot means no inverse.
\<close>

type_synonym vec = "complex list"

definition vsub :: "vec \<Rightarrow> vec \<Rightarrow> vec" where
  "vsub u v = map2 (\<lambda>a b. a - b) u v"

definition smult :: "complex \<Rightarrow> vec \<Rightarrow> vec" where
  "smult c v = map (\<lambda>a. c * a) v"

fun find_pivot :: "nat \<Rightarrow> nat \<Rightarrow> (vec \<times> vec) list \<Rightarrow> nat option" where
  "find_pivot c i [] = None"
| "find_pivot c i (w # ws) =
     (if c \<le> i \<and> fst w ! c \<noteq> 0 then Some i else find_pivot c (Suc i) ws)"

definition swap_rows :: "nat \<Rightarrow> nat \<Rightarrow> 'a list \<Rightarrow> 'a list" where
  "swap_rows i j ws = (ws[i := ws ! j])[j := ws ! i]"

definition eliminate :: "nat \<Rightarrow> (vec \<times> vec) \<Rightarrow> nat \<Rightarrow> (vec \<times> vec) \<Rightarrow> (vec \<times> vec)" where
  "eliminate c pr i w =
     (if i = c then pr
      else (vsub (fst w) (smult (fst w ! c) (fst pr)),
            vsub (snd w) (smult (fst w ! c) (snd pr))))"

definition gj_step :: "nat \<Rightarrow> (vec \<times> vec) list \<Rightarrow> (vec \<times> vec) list option" where
  "gj_step c ws =
     (case find_pivot c 0 ws of
        None \<Rightarrow> None
      | Some p \<Rightarrow>
          (let ws1 = swap_rows c p ws;
               piv = fst (ws1 ! c) ! c;
               pr = (smult (1 / piv) (fst (ws1 ! c)), smult (1 / piv) (snd (ws1 ! c)))
           in Some (map2 (eliminate c pr) [0..<length ws1] ws1)))"

fun gauss_jordan :: "nat \<Rightarrow> nat \<Rightarrow> (vec \<times> vec) list \<Rightarrow> (vec \<times> vec) list option" where
  "gauss_jordan 0 c ws = Some ws"
| "gauss_jordan (Suc k) c ws =
     (case gj_step c ws of
        None \<Rightarrow> None
      | Some ws' \<Rightarrow> gauss_jordan k (Suc c) ws')"

definition np_linalg_inv :: "cmat \<Rightarrow> error + cmat" where
  "np_linalg_inv A =
     (if nrows A \<noteq> ncols A then Inl LinAlgError
      else (case gauss_jordan (nrows A) 0 (zip (rows A) (rows (np_identity (nrows A)))) of
              None \<Rightarrow> Inl LinAlgError
            | Some ws \<Rightarrow> Inr (Mat (nrows A) (nrows A) (map snd ws))))"

section \<open>The CSSM object and its collaborators\<close>

text \<open>
  The calls \<^verbatim>\<open>_process\<close> makes, in the order it makes them: the methods inherited from
  \<^verbatim>\<open>MUSIC\<close> and its own \<^verbatim>\<open>_coherent_sum\<close>, each with its arguments.  The list is kept
  in the object's state so that the order of the work is a value of the model.
\<close>

datatype call =
    CallCorrelationMatrices
  | CallSpatialSpectrum cmat nat
  | CallPeaks1D
  | CallCoherentSum "cmat list" nat "nat list list"
  | CallSubspaceDecomposition cmat

text \<open>
  The fields of \<^verbatim>\<open>self\<close> that \<^verbatim>\<open>CSSM\<close> reads or writes.  \<open>iter\<close> is the constructor's
  \<^verbatim>\<open>num_iter\<close>, a Python integer.  The spectrum \<^verbatim>\<open>self.P\<close> is an array of floats that only
  the inherited methods look into; its type is left open.
\<close>

record 'sp cssm =
  M :: nat
  num_freq :: nat
  freq_bins :: "nat list"
  num_src :: nat
  iter :: int
  mode_vec :: tensor3
  P :: 'sp
  src_idx :: "nat list"
  calls :: "call list"

text \<open>
  The methods of the parent class \<^verbatim>\<open>MUSIC\<close> are not part of \<^verbatim>\<open>cssm.py\<close>; they are
  parameters of the model, with the signatures the specification gives them:
  the correlation matrices of a snapshot tensor (one per active bin), the spatial
  spectrum of a matrix at a frequency bin, the peak search on a spectrum (the new
  \<^verbatim>\<open>self.src_idx\<close>) and the subspace decomposition \<open>(Es, En, ws, wn)\<close>.
  \<open>reciprocal\<close> is numpy's elementwise \<^verbatim>\<open>1 / P\<close> on a float array.
\<close>

record 'sp music =
  compute_correlation_matrices :: "tensor3 \<Rightarrow> cmat list"
  compute_spatial_spectrum :: "cmat \<Rightarrow> nat \<Rightarrow> 'sp"
  peaks1D :: "'sp \<Rightarrow> nat list"
  subspace_decomposition :: "cmat \<Rightarrow> cmat \<times> cmat \<times> complex list \<times> complex list"
  reciprocal :: "'sp \<Rightarrow> 'sp"

section \<open>\<^verbatim>\<open>CSSM._coherent_sum\<close>\<close>

text \<open>\<^verbatim>\<open>self.mode_vec[k,:,idx].T\<close>: the \<open>M \<times> p\<close> matrix whose column \<open>c\<close> is the steering
  vector of bin \<open>k\<close> for direction \<open>idx[c]\<close>.  (An integer and an index array around a
  slice put the indexed axis first, hence the transposition in the source.)\<close>

definition mode_vec_at :: "tensor3 \<Rightarrow> nat \<Rightarrow> nat list \<Rightarrow> error + cmat" where
  "mode_vec_at mv k idx =
     (if k < dim0 mv \<and> list_all (\<lambda>d. d < dim2 mv) idx
      then Inr (np_T (mk_mat (length idx) (dim1 mv) (\<lambda>c m. at3 mv k m (idx ! c))))
      else Inl IndexError)"

text \<open>\<^verbatim>\<open>np.concatenate((np.zeros([M-p, p]), np.identity(M-p)), axis=1).T\<close>; a negative
  dimension is a \<^verbatim>\<open>ValueError\<close>.\<close>

definition complement_block :: "nat \<Rightarrow> nat \<Rightarrow> error + cmat" where
  "complement_block m p =
     (if m < p then Inl ValueError
      else bind_err (np_concatenate_axis1 (np_zeros (m - p) p) (np_identity (m - p)))
             (\<lambda>C. Inr (np_T C)))"

text \<open>Lines 91--96: the focusing transform \<open>Tj\<close> of the bin at position \<open>j\<close>.\<close>

definition focusing_transform :: "'sp cssm \<Rightarrow> nat \<Rightarrow> nat list list \<Rightarrow> nat \<Rightarrow> error + cmat" where
  "focusing_transform s f0 beta j =
     (let k = freq_bins s ! j in
      if length beta \<le> j then Inl IndexError
      else
        bind_err (mode_vec_at (mode_vec s) k (beta ! j)) (\<lambda>Aj.
        bind_err (mode_vec_at (mode_vec s) f0 (beta ! j)) (\<lambda>A0.
        bind_err (complement_block (M s) (length (beta ! j))) (\<lambda>B.
        bind_err (np_concatenate_axis1 A0 B) (\<lambda>A0B.
        bind_err (np_concatenate_axis1 Aj B) (\<lambda>AjB.
        bind_err (np_linalg_inv AjB) (\<lambda>AjB_inv.
        np_dot A0B AjB_inv)))))))"

text \<open>Line 97: \<^verbatim>\<open>np.dot(np.dot(Tj, C_hat[j,:,:]), np.conjugate(Tj).T)\<close>.\<close>

definition focused_covariance :: "cmat list \<Rightarrow> nat \<Rightarrow> cmat \<Rightarrow> error + cmat" where
  "focused_covariance C_hat j Tj =
     (if length C_hat \<le> j then Inl IndexError
      else bind_err (np_dot Tj (C_hat ! j)) (\<lambda>TC. np_dot TC (np_T (np_conjugate Tj))))"

text \<open>The loop over \<^verbatim>\<open>range(len(self.freq_bins))\<close>, with the accumulator \<open>R\<close>.\<close>

fun coherent_sum_loop ::
  "'sp cssm \<Rightarrow> cmat list \<Rightarrow> nat \<Rightarrow> nat list list \<Rightarrow> nat list \<Rightarrow> cmat \<Rightarrow> error + cmat" where
  "coherent_sum_loop s C_hat f0 beta [] R = Inr R"
| "coherent_sum_loop s C_hat f0 beta (j # js) R =
     bind_err (focusing_transform s f0 beta j) (\<lambda>Tj.
     bind_err (focused_covariance C_hat j Tj) (\<lambda>F.
     bind_err (np_add R F) (\<lambda>R'.
     coherent_sum_loop s C_hat f0 beta js R')))"

definition coherent_sum :: "'sp cssm \<Rightarrow> cmat list \<Rightarrow> nat \<Rightarrow> nat list list \<Rightarrow> error + cmat" where
  "coherent_sum s C_hat f0 beta =
     coherent_sum_loop s C_hat f0 beta [0..<length (freq_bins s)] (np_zeros (M s) (M s))"

section \<open>\<^verbatim>\<open>CSSM._process\<close>\<close>

subsection \<open>Seeding (lines 54--64)\<close>

text \<open>One pass of the loop over \<^verbatim>\<open>range(self.num_freq)\<close>: the spectrum of bin \<open>k\<close> is
  inverted and searched for peaks; a bin with fewer than \<^verbatim>\<open>num_src\<close> peaks is recorded
  in \<^verbatim>\<open>invalid\<close>, and its peak list is appended to \<^verbatim>\<open>beta\<close> all the same (the
  \<^verbatim>\<open>else\<close> is commented out in the source).\<close>

definition seed_bin ::
  "'sp music \<Rightarrow> cmat list \<Rightarrow> 'sp cssm \<times> nat list list \<times> nat list \<Rightarrow> nat \<Rightarrow>
     error \<times> 'sp cssm + 'sp cssm \<times> nat list list \<times> nat list" where
  "seed_bin ops C_hat st k =
     (case st of (s, beta, invalid) \<Rightarrow>
        if length C_hat \<le> k \<or> length (freq_bins s) \<le> k then Inl (IndexError, s)
        else
          (let s1 = s\<lparr>P := reciprocal ops (compute_spatial_spectrum ops (C_hat ! k) (freq_bins s ! k)),
                      calls := calls s @ [CallSpatialSpectrum (C_hat ! k) (freq_bins s ! k)]\<rparr>;
               s2 = s1\<lparr>src_idx := peaks1D ops (P s1), calls := calls s1 @ [CallPeaks1D]\<rparr>;
               invalid' = (if length (src_idx s2) < num_src s2 then invalid @ [k] else invalid)
           in Inr (s2, beta @ [src_idx s2], invalid')))"

fun seeding ::
  "'sp music \<Rightarrow> cmat list \<Rightarrow> nat list \<Rightarrow> 'sp cssm \<times> nat list list \<times> nat list \<Rightarrow>
     error \<times> 'sp cssm + 'sp cssm \<times> nat list list \<times> nat list" where
  "seeding ops C_hat [] st = Inr st"
| "seeding ops C_hat (k # ks) st = bind_err (seed_bin ops C_hat st k) (seeding ops C_hat ks)"

text \<open>\<^verbatim>\<open>np.delete(self.freq_bins, invalid)\<close>: the bins whose positions are not listed.\<close>

definition np_delete :: "nat list \<Rightarrow> nat list \<Rightarrow> error + nat list" where
  "np_delete xs idx =
     (if list_all (\<lambda>i. i < length xs) idx
      then Inr (map (\<lambda>i. xs ! i) (filter (\<lambda>i. i \<notin> set idx) [0..<length xs]))
      else Inl IndexError)"

subsection \<open>Reference frequency (lines 68--70)\<close>

text \<open>\<^verbatim>\<open>np.sum(np.sum(abs(X[:,k,:]), axis=0))\<close> for one bin \<open>k\<close>: the magnitudes are summed
  over the sensors (axis 0) and then over the time samples.\<close>

definition bin_magnitude :: "tensor3 \<Rightarrow> nat \<Rightarrow> real" where
  "bin_magnitude X k =
     sum_list (map (\<lambda>t. sum_list (map (\<lambda>m. cmod (at3 X m k t)) [0..<dim0 X])) [0..<dim2 X])"

text \<open>\<^verbatim>\<open>np.argmax\<close>: the position of the first maximum; a \<^verbatim>\<open>ValueError\<close> on an empty
  sequence.\<close>

fun argmax_scan :: "real list \<Rightarrow> nat \<Rightarrow> nat \<Rightarrow> real \<Rightarrow> nat" where
  "argmax_scan [] i best_i best = best_i"
| "argmax_scan (x # xs) i best_i best =
     (if best < x then argmax_scan xs (Suc i) i x else argmax_scan xs (Suc i) best_i best)"

definition np_argmax :: "real list \<Rightarrow> error + nat" where
  "np_argmax xs = (case xs of [] \<Rightarrow> Inl ValueError | x # ys \<Rightarrow> Inr (argmax_scan ys 1 0 x))"

definition reference_frequency :: "'sp cssm \<Rightarrow> tensor3 \<Rightarrow> error + nat" where
  "reference_frequency s X =
     (if list_all (\<lambda>k. k < dim1 X) (freq_bins s)
      then bind_err (np_argmax (map (bin_magnitude X) (freq_bins s)))
             (\<lambda>a. Inr (freq_bins s ! a))
      else Inl IndexError)"

subsection \<open>The main loop (lines 73--85)\<close>

definition loop_guard :: "'sp cssm \<Rightarrow> int \<Rightarrow> bool" where
  "loop_guard s i \<longleftrightarrow> i < iter s \<or> (length (src_idx s) < num_src s \<and> i < 20)"

definition loop_body ::
  "'sp music \<Rightarrow> cmat list \<Rightarrow> nat \<Rightarrow> 'sp cssm \<Rightarrow> nat list list \<Rightarrow>
     error \<times> 'sp cssm + 'sp cssm \<times> nat list list" where
  "loop_body ops C_hat f0 s beta =
     (let s0 = s\<lparr>calls := calls s @ [CallCoherentSum C_hat f0 beta]\<rparr> in
      case coherent_sum s C_hat f0 beta of
        Inl e \<Rightarrow> Inl (e, s0)
      | Inr R \<Rightarrow>
          (case subspace_decomposition ops R of
             (Es, En, ws, wn) \<Rightarrow>
               (let s1 = s0\<lparr>calls := calls s0 @ [CallSubspaceDecomposition R]\<rparr> in
                case np_dot En (np_T (np_conjugate En)) of
                  Inl e \<Rightarrow> Inl (e, s1)
                | Inr cross \<Rightarrow>
                    (let s2 = s1\<lparr>P := compute_spatial_spectrum ops cross f0,
                                calls := calls s1 @ [CallSpatialSpectrum cross f0]\<rparr>;
                         s3 = s2\<lparr>src_idx := peaks1D ops (P s2),
                                calls := calls s2 @ [CallPeaks1D]\<rparr>
                     in Inr (s3, replicate (num_freq s3) (src_idx s3))))))"

function main_loop ::
  "'sp music \<Rightarrow> cmat list \<Rightarrow> nat \<Rightarrow> 'sp cssm \<Rightarrow> nat list list \<Rightarrow> int \<Rightarrow>
     error \<times> 'sp cssm + 'sp cssm \<times> nat list list \<times> int" where
  "main_loop ops C_hat f0 s beta i =
     (if loop_guard s i
      then (case loop_body ops C_hat f0 s beta of
              Inl e \<Rightarrow> Inl e
            | Inr (s', beta') \<Rightarrow> main_loop ops C_hat f0 s' beta' (i + 1))
      else Inr (s, beta, i))"
  by pat_completeness auto
termination
proof (relation "measure (\<lambda>(ops, C_hat, f0, s, beta, i). nat (max (iter s) 20 - i))")
  show "wf (measure (\<lambda>(ops, C_hat, f0, s, beta, i). nat (max (iter s) 20 - i)))"
    by simp
next
  fix ops :: "'sp music" and C_hat f0 and s :: "'sp cssm" and beta i x2 x y
  assume "loop_guard s i" and "loop_body ops C_hat f0 s beta = Inr x2" and "(x, y) = x2"
  then have "iter x = iter s" and "i < max (iter s) 20"
    by (auto simp: loop_guard_def loop_body_def Let_def split: sum.splits prod.splits)
  then show "((ops, C_hat, f0, x, y, i + 1), ops, C_hat, f0, s, beta, i)
       \<in> measure (\<lambda>(ops, C_hat, f0, s, beta, i). nat (max (iter s) 20 - i))"
    by simp
qed

declare main_loop.simps [simp del]

subsection \<open>The whole method\<close>

text \<open>The local variables of \<^verbatim>\<open>_process\<close> when it returns.\<close>

record locals =
  the_C_hat :: "cmat list"
  the_invalid :: "nat list"
  the_desired_freq :: "nat list"
  the_f0 :: nat
  the_beta :: "nat list list"
  the_i :: int

text \<open>\<^verbatim>\<open>_process\<close> returns nothing; its results are the fields of \<^verbatim>\<open>self\<close> it leaves
  (the spectrum and \<^verbatim>\<open>src_idx\<close>).  The model returns the final object with the local
  variables, or the exception with the object as it was when the exception was raised.\<close>

definition process ::
  "'sp music \<Rightarrow> 'sp cssm \<Rightarrow> tensor3 \<Rightarrow> error \<times> 'sp cssm + 'sp cssm \<times> locals" where
  "process ops s X =
     (let C_hat = compute_correlation_matrices ops X;
          s0 = s\<lparr>calls := calls s @ [CallCorrelationMatrices]\<rparr> in
      case seeding ops C_hat [0..<num_freq s0] (s0, [], []) of
        Inl e \<Rightarrow> Inl e
      | Inr (s1, beta, invalid) \<Rightarrow>
          (case np_delete (freq_bins s1) invalid of
             Inl e \<Rightarrow> Inl (e, s1)
           | Inr desired_freq \<Rightarrow>
               (case reference_frequency s1 X of
                  Inl e \<Rightarrow> Inl (e, s1)
                | Inr f0 \<Rightarrow>
                    (case main_loop ops C_hat f0 s1 beta 0 of
                       Inl e \<Rightarrow> Inl e
                     | Inr (s2, beta', i) \<Rightarrow>
                         Inr (s2, \<lparr>the_C_hat = C_hat, the_invalid = invalid,
                                   the_desired_freq = desired_freq, the_f0 = f0,
                                   the_beta = beta', the_i = i\<rparr>)))))"

section \<open>Notions the statements use\<close>

text \<open>The number of passes of the main loop an object has been through: each pass starts
  with one call of \<^verbatim>\<open>_coherent_sum\<close>.\<close>

fun is_coherent_sum :: "call \<Rightarrow> bool" where
  "is_coherent_sum (CallCoherentSum C f b) = True"
| "is_coherent_sum c = False"

definition iterations_run :: "'sp cssm \<Rightarrow> nat" where
  "iterations_run s = length (filter is_coherent_sum (calls s))"


text \<open>The calls a stretch of \<^verbatim>\<open>_process\<close> has added: no new correlation estimate, and
  every call of \<^verbatim>\<open>_coherent_sum\<close> was made with the given \<open>C_hat\<close> and \<open>f0\<close> and returned.\<close>

definition calls_ok :: "'sp cssm \<Rightarrow> cmat list \<Rightarrow> nat \<Rightarrow> call list \<Rightarrow> bool" where
  "calls_ok s C_hat f0 new \<longleftrightarrow>
     CallCorrelationMatrices \<notin> set new \<and>
     (\<forall>C f b. CallCoherentSum C f b \<in> set new \<longrightarrow>
        C = C_hat \<and> f = f0 \<and> (\<exists>R. coherent_sum s C f b = Inr R))"

subsection \<open>The statements about \<^verbatim>\<open>_coherent_sum\<close>, in the words of the specification\<close>

text \<open>The augmented basis \<open>[A | B]\<close> of the bin \<open>k\<close> for the direction list \<open>idx\<close>, as the
  specification describes it: an \<open>m \<times> m\<close> matrix whose column \<open>c\<close> is the steering vector of
  bin \<open>k\<close> for the direction \<open>idx[c]\<close> while \<open>c < p = len(idx)\<close>, and the standard basis
  vector number \<open>c\<close> for the last \<open>m - p\<close> columns.\<close>

definition augmented_basis :: "tensor3 \<Rightarrow> nat \<Rightarrow> nat list \<Rightarrow> nat \<Rightarrow> cmat" where
  "augmented_basis mv k idx m =
     mk_mat m m (\<lambda>r c. if c < length idx then at3 mv k r (idx ! c) else if r = c then 1 else 0)"

text \<open>The entry \<open>(a, b)\<close> of the product \<open>T \<cdot> C \<cdot> T\<^sup>H\<close>, for a square \<open>C\<close> with as many rows
  as \<open>T\<close> has columns.\<close>

definition sandwich :: "cmat \<Rightarrow> cmat \<Rightarrow> nat \<Rightarrow> nat \<Rightarrow> complex" where
  "sandwich T C a b = (\<Sum>l<ncols T. (\<Sum>k<ncols T. ent T a k * ent C k l) * cnj (ent T b l))"


subsection \<open>Notions for the soundness of the inversion\<close>

text \<open>The elimination works on rows that are pairs: \<open>Lf\<close> and \<open>Rf\<close> read the entries of
  the left and of the right block, and \<open>shaped n\<close> says that there are \<open>n\<close> rows with blocks
  of length \<open>n\<close>.  One step with the pivot found in row \<open>p\<close> for column \<open>c\<close> turns a block
  \<open>V\<close> into \<open>row_op c p L V\<close>, where \<open>L\<close> is the left block before the step; \<open>back_op\<close>
  holds the coefficients that give the rows before the step from the rows after it.  The
  invariant \<open>gj_inv\<close> of the elimination on a matrix \<open>A\<close>: the left block is the right block
  times \<open>A\<close>, the first \<open>c\<close> columns of the left block are unit columns, and some matrix
  \<open>a\<close> gives \<open>A\<close> from the left block and the identity from the right block.\<close>

definition Lf :: "(vec \<times> vec) list \<Rightarrow> nat \<Rightarrow> nat \<Rightarrow> complex" where
  "Lf ws i j = fst (ws ! i) ! j"

definition Rf :: "(vec \<times> vec) list \<Rightarrow> nat \<Rightarrow> nat \<Rightarrow> complex" where
  "Rf ws i j = snd (ws ! i) ! j"

definition shaped :: "nat \<Rightarrow> (vec \<times> vec) list \<Rightarrow> bool" where
  "shaped n ws \<longleftrightarrow> length ws = n \<and> (\<forall>i<n. length (fst (ws ! i)) = n \<and> length (snd (ws ! i)) = n)"

definition swap_ix :: "nat \<Rightarrow> nat \<Rightarrow> nat \<Rightarrow> nat" where
  "swap_ix c p i = (if i = c then p else if i = p then c else i)"

definition row_op :: "nat \<Rightarrow> nat \<Rightarrow> (nat \<Rightarrow> nat \<Rightarrow> complex) \<Rightarrow> (nat \<Rightarrow> nat \<Rightarrow> complex) \<Rightarrow>
    nat \<Rightarrow> nat \<Rightarrow> complex" where
  "row_op c p L V i j =
     (if i = c then V p j / L p c
      else V (swap_ix c p i) j - L (swap_ix c p i) c * (V p j / L p c))"

definition back_op :: "nat \<Rightarrow> nat \<Rightarrow> (nat \<Rightarrow> nat \<Rightarrow> complex) \<Rightarrow> nat \<Rightarrow> nat \<Rightarrow> complex" where
  "back_op c p L m k =
     (if m = p then (if k = c then L p c else 0)
      else (if k = swap_ix c p m then 1 else 0) + (if k = c then L m c else 0))"

definition gj_inv :: "nat \<Rightarrow> (nat \<Rightarrow> nat \<Rightarrow> complex) \<Rightarrow> nat \<Rightarrow> (vec \<times> vec) list \<Rightarrow> bool" where
  "gj_inv n A c ws \<longleftrightarrow>
     shaped n ws
   \<and> (\<forall>i<n. \<forall>j<n. Lf ws i j = (\<Sum>k<n. Rf ws i k * A k j))
   \<and> (\<forall>i<n. \<forall>j<c. Lf ws i j = (if i = j then 1 else 0))
   \<and> (\<exists>a. \<forall>i<n. \<forall>j<n. A i j = (\<Sum>k<n. a i k * Lf ws k j)
                      \<and> (if i = j then 1 else 0) = (\<Sum>k<n. a i k * Rf ws k j))"

section \<open>A small array, for the worked examples\<close>

text \<open>
  Two sensors, the two frequency bins 0 and 1, three candidate directions and one source.
  Direction 0 has the same steering vector in both bins; directions 1 and 2 share one
  steering vector, which differs between the bins.  Bin 0 carries the larger magnitude.
  The spectrum of the example is a tag, 0 for a matrix whose first entry is 1 and 2
  otherwise, and its peak search finds no peak for the tag 0 and direction 2 otherwise,
  so that bin 0 is invalid in the seeding pass.
\<close>

definition ex_mode_vec :: tensor3 where
  "ex_mode_vec = \<lparr>dim0 = 2, dim1 = 2, dim2 = 3,
     at3 = (\<lambda>k m d. if d = 0 \<or> m = 0 then 1 else if k = 0 then \<i> else 2)\<rparr>"

definition ex_X :: tensor3 where
  "ex_X = \<lparr>dim0 = 2, dim1 = 2, dim2 = 1, at3 = (\<lambda>m k t. if k = 0 then 2 else \<i>)\<rparr>"

definition ex_C_hat :: "cmat list" where
  "ex_C_hat = [Mat 2 2 [[1, 0], [0, 1]], Mat 2 2 [[2, \<i>], [- \<i>, 2]]]"

definition ex_ops :: "nat music" where
  "ex_ops = \<lparr>compute_correlation_matrices = (\<lambda>X. ex_C_hat),
     compute_spatial_spectrum = (\<lambda>A f. if ent A 0 0 = 1 then 0 else 2),
     peaks1D = (\<lambda>p. if p = 0 then [] else [2]),
     subspace_decomposition = (\<lambda>R. (Mat 2 1 [[1], [0]], Mat 2 1 [[0], [1]], [], [])),
     reciprocal = (\<lambda>p. p)\<rparr>"

definition ex_cssm :: "nat cssm" where
  "ex_cssm = \<lparr>M = 2, num_freq = 2, freq_bins = [0, 1], num_src = 1, iter = 2,
     mode_vec = ex_mode_vec, P = 0, src_idx = [0], calls = []\<rparr>"

section \<open>Evaluation\<close>

lemmas np_defs = mk_mat_def ent_def np_zeros_def np_identity_def np_concatenate_axis1_def
  np_T_def np_conjugate_def np_dot_def np_add_def bind_err_def

lemmas inv_defs = np_linalg_inv_def gj_step_def swap_rows_def eliminate_def vsub_def smult_def

lemmas cs_defs = coherent_sum_def focused_covariance_def focusing_transform_def
  mode_vec_at_def complement_block_def

lemmas pr_defs = process_def seed_bin_def np_delete_def reference_frequency_def
  bin_magnitude_def np_argmax_def loop_guard_def loop_body_def

lemmas ex_defs = ex_cssm_def ex_mode_vec_def ex_C_hat_def ex_ops_def ex_X_def

lemmas ev = upt_conv_Cons eval_nat_numeral Let_def

section \<open>The main loop and the seeding pass: auxiliary facts\<close>

lemma loop_body_iter: "loop_body ops C_hat f0 s beta = Inr (s', beta') \<Longrightarrow> iter s' = iter s"
  by (auto simp: loop_body_def Let_def split: sum.splits prod.splits)

lemma loop_body_beta:
  "loop_body ops C_hat f0 s beta = Inr (s', beta') \<Longrightarrow>
     beta' = replicate (num_freq s) (src_idx s') \<and> num_freq s' = num_freq s \<and>
     freq_bins s' = freq_bins s \<and>
     (\<exists>cross. src_idx s' = peaks1D ops (compute_spatial_spectrum ops cross f0))"
  by (auto simp: loop_body_def Let_def split: sum.splits prod.splits)

lemma main_loop_result:
  "main_loop ops C_hat f0 s beta i = Inr (s', beta', i') \<Longrightarrow>
     i \<le> i' \<and> iter s' = iter s \<and> \<not> loop_guard s' i' \<and> (loop_guard s i \<longrightarrow> i < i')
     \<and> i' \<le> max i (max (iter s) 20)"
proof (induction ops C_hat f0 s beta i rule: main_loop.induct)
  case (1 ops C_hat f0 s beta i)
  show ?case
  proof (cases "loop_guard s i")
    case False
    with "1.prems" show ?thesis by (simp add: main_loop.simps)
  next
    case True
    with "1.prems" obtain s1 beta1 where
      body: "loop_body ops C_hat f0 s beta = Inr (s1, beta1)" and
      rest: "main_loop ops C_hat f0 s1 beta1 (i + 1) = Inr (s', beta', i')"
      by (auto simp: main_loop.simps [of ops C_hat f0 s beta i] split: sum.splits)
    from "1.IH" [OF True body refl rest] loop_body_iter [OF body] True
    show ?thesis by (auto simp: loop_guard_def)
  qed
qed

lemma main_loop_beta:
  "main_loop ops C_hat f0 s beta i = Inr (s', beta', i') \<Longrightarrow>
     num_freq s' = num_freq s \<and> freq_bins s' = freq_bins s \<and>
     (i < i' \<longrightarrow> beta' = replicate (num_freq s) (src_idx s'))"
proof (induction ops C_hat f0 s beta i rule: main_loop.induct)
  case (1 ops C_hat f0 s beta i)
  show ?case
  proof (cases "loop_guard s i")
    case False
    with "1.prems" show ?thesis by (simp add: main_loop.simps)
  next
    case True
    with "1.prems" obtain s1 beta1 where
      body: "loop_body ops C_hat f0 s beta = Inr (s1, beta1)" and
      rest: "main_loop ops C_hat f0 s1 beta1 (i + 1) = Inr (s', beta', i')"
      by (auto simp: main_loop.simps [of ops C_hat f0 s beta i] split: sum.splits)
    note ih = "1.IH" [OF True body refl rest]
    note b = loop_body_beta [OF body]
    show ?thesis
    proof (cases "i + 1 < i'")
      case True
      with ih b show ?thesis by simp
    next
      case False
      with main_loop_result [OF rest] have "i' = i + 1" and "\<not> loop_guard s1 (i + 1)"
        by auto
      with rest have "s' = s1" "beta' = beta1" by (simp_all add: main_loop.simps)
      with b ih show ?thesis by simp
    qed
  qed
qed

lemma loop_body_count:
  "loop_body ops C_hat f0 s beta = Inr (s', beta') \<Longrightarrow> iterations_run s' = Suc (iterations_run s)"
  by (auto simp: loop_body_def Let_def iterations_run_def split: sum.splits prod.splits)

lemma main_loop_count:
  "main_loop ops C_hat f0 s beta i = Inr (s', beta', i') \<Longrightarrow>
     int (iterations_run s') = int (iterations_run s) + (i' - i)"
proof (induction ops C_hat f0 s beta i rule: main_loop.induct)
  case (1 ops C_hat f0 s beta i)
  show ?case
  proof (cases "loop_guard s i")
    case False
    with "1.prems" show ?thesis by (simp add: main_loop.simps)
  next
    case True
    with "1.prems" obtain s1 beta1 where
      body: "loop_body ops C_hat f0 s beta = Inr (s1, beta1)" and
      rest: "main_loop ops C_hat f0 s1 beta1 (i + 1) = Inr (s', beta', i')"
      by (auto simp: main_loop.simps [of ops C_hat f0 s beta i] split: sum.splits)
    from "1.IH" [OF True body refl rest] loop_body_count [OF body]
    show ?thesis by simp
  qed
qed





lemma reference_frequency_cong:
  "freq_bins s' = freq_bins s \<Longrightarrow> reference_frequency s' X = reference_frequency s X"
  by (simp add: reference_frequency_def)

section \<open>Claims about the seeding pass\<close>



section \<open>Claims about the main loop\<close>

text \<open>
  Claim C1.  The main loop of \<^verbatim>\<open>_process\<close> returns at once exactly when
  \<open>i \<ge> num_iter\<close> and (\<open>len(src_idx) \<ge> num_src\<close> or \<open>i \<ge> 20\<close>); this is the negation of
  its guard, and while the guard holds the body runs and the loop goes on with \<open>i + 1\<close>.
  A run that starts at \<open>i = 0\<close> and returns has executed the body \<open>i'\<close> times (counted by
  the calls of \<^verbatim>\<open>_coherent_sum\<close>) with \<open>i' \<ge> num_iter\<close>; below \<open>num_iter\<close> the guard holds
  whatever the peaks are, and from \<open>num_iter\<close> on, with fewer than \<open>num_src\<close> peaks,
  the loop goes on exactly as long as \<open>i < 20\<close>.
\<close>
theorem main_loop_stop_rule:
  "(main_loop ops C_hat f0 s beta i = Inr (s, beta, i)
      \<longleftrightarrow> iter s \<le> i \<and> (num_src s \<le> length (src_idx s) \<or> 20 \<le> i))
   \<and> (loop_guard s i \<longleftrightarrow> \<not> (iter s \<le> i \<and> (num_src s \<le> length (src_idx s) \<or> 20 \<le> i)))
   \<and> (loop_guard s i \<longrightarrow>
        main_loop ops C_hat f0 s beta i =
          (case loop_body ops C_hat f0 s beta of
             Inl e \<Rightarrow> Inl e
           | Inr (s', beta') \<Rightarrow> main_loop ops C_hat f0 s' beta' (i + 1)))
   \<and> (\<forall>s' beta' i'. main_loop ops C_hat f0 s beta 0 = Inr (s', beta', i')
         \<longrightarrow> iter s \<le> i' \<and> int (iterations_run s') = int (iterations_run s) + i'
             \<and> \<not> loop_guard s' i')
   \<and> (i < iter s \<longrightarrow> loop_guard s i)
   \<and> (iter s \<le> i \<and> length (src_idx s) < num_src s \<longrightarrow> (loop_guard s i \<longleftrightarrow> i < 20))"
proof -
  have a: "main_loop ops C_hat f0 s beta i = Inr (s, beta, i) \<longleftrightarrow> \<not> loop_guard s i"
  proof
    assume r: "main_loop ops C_hat f0 s beta i = Inr (s, beta, i)"
    from main_loop_result [OF r] show "\<not> loop_guard s i" by simp
  next
    assume "\<not> loop_guard s i"
    then show "main_loop ops C_hat f0 s beta i = Inr (s, beta, i)"
      by (simp add: main_loop.simps)
  qed
  have b: "\<forall>s' beta' i'. main_loop ops C_hat f0 s beta 0 = Inr (s', beta', i')
         \<longrightarrow> iter s \<le> i' \<and> int (iterations_run s') = int (iterations_run s) + i'
             \<and> \<not> loop_guard s' i'"
  proof (intro allI impI)
    fix s' beta' i'
    assume r: "main_loop ops C_hat f0 s beta 0 = Inr (s', beta', i')"
    from main_loop_result [OF r] main_loop_count [OF r]
    show "iter s \<le> i' \<and> int (iterations_run s') = int (iterations_run s) + i'
             \<and> \<not> loop_guard s' i'"
      by (auto simp: loop_guard_def)
  qed
  have c: "loop_guard s i \<longrightarrow>
        main_loop ops C_hat f0 s beta i =
          (case loop_body ops C_hat f0 s beta of
             Inl e \<Rightarrow> Inl e
           | Inr (s', beta') \<Rightarrow> main_loop ops C_hat f0 s' beta' (i + 1))"
    by (simp add: main_loop.simps [of ops C_hat f0 s beta i])
  have d: "loop_guard s i \<longleftrightarrow> \<not> (iter s \<le> i \<and> (num_src s \<le> length (src_idx s) \<or> 20 \<le> i))"
    by (auto simp: loop_guard_def)
  have e: "i < iter s \<longrightarrow> loop_guard s i"
    and f: "iter s \<le> i \<and> length (src_idx s) < num_src s \<longrightarrow> (loop_guard s i \<longleftrightarrow> i < 20)"
    by (auto simp: loop_guard_def)
  from a d have a': "main_loop ops C_hat f0 s beta i = Inr (s, beta, i)
      \<longleftrightarrow> iter s \<le> i \<and> (num_src s \<le> length (src_idx s) \<or> 20 \<le> i)" by simp
  from a' d c b e f show ?thesis by blast
qed

lemma ex_loop_body:
  "\<exists>s1. loop_body ex_ops ex_C_hat 0 (ex_cssm\<lparr>iter := 0, src_idx := []\<rparr>) [[], [2]] =
          Inr (s1, [[2], [2]]) \<and> iter s1 = 0 \<and> src_idx s1 = [2] \<and> num_src s1 = 1"
  by (simp add: pr_defs cs_defs ex_defs np_defs inv_defs ev)

theorem main_loop_stop_rule_witness:
  "iter (ex_cssm\<lparr>iter := 0, src_idx := []\<rparr>) \<le> 0
   \<and> length (src_idx (ex_cssm\<lparr>iter := 0, src_idx := []\<rparr>))
       < num_src (ex_cssm\<lparr>iter := 0, src_idx := []\<rparr>)
   \<and> loop_guard (ex_cssm\<lparr>iter := 0, src_idx := []\<rparr>) 0
   \<and> (\<exists>s' beta'. main_loop ex_ops ex_C_hat 0 (ex_cssm\<lparr>iter := 0, src_idx := []\<rparr>) [[], [2]] 0
          = Inr (s', beta', 1) \<and> int (iterations_run s') = 1 \<and> \<not> loop_guard s' 1)"
proof -
  let ?s = "ex_cssm\<lparr>iter := 0, src_idx := []\<rparr>"
  note inst = main_loop_stop_rule [of ex_ops ex_C_hat 0 ?s "[[], [2]]" 0]
  have h1: "iter ?s \<le> 0" and h2: "length (src_idx ?s) < num_src ?s"
    and h3: "iterations_run ?s = 0"
    by (simp_all add: ex_cssm_def iterations_run_def)
  from inst h1 h2 have g: "loop_guard ?s 0" by simp
  from ex_loop_body obtain s1 where
    b: "loop_body ex_ops ex_C_hat 0 ?s [[], [2]] = Inr (s1, [[2], [2]])"
    and s1: "iter s1 = 0" "src_idx s1 = [2]" "num_src s1 = 1"
    by blast
  have "\<not> loop_guard s1 1" by (simp add: loop_guard_def s1)
  then have "main_loop ex_ops ex_C_hat 0 s1 [[2], [2]] (0 + 1) = Inr (s1, [[2], [2]], 1)"
    by (simp add: main_loop.simps)
  with g b have run: "main_loop ex_ops ex_C_hat 0 ?s [[], [2]] 0 = Inr (s1, [[2], [2]], 1)"
    by (simp add: main_loop.simps [of ex_ops ex_C_hat 0 ?s "[[], [2]]" 0])
  from inst have "\<forall>s' beta' i'. main_loop ex_ops ex_C_hat 0 ?s [[], [2]] 0 = Inr (s', beta', i')
         \<longrightarrow> iter ?s \<le> i' \<and> int (iterations_run s') = int (iterations_run ?s) + i'
             \<and> \<not> loop_guard s' i'"
    by blast
  with run have "int (iterations_run s1) = int (iterations_run ?s) + 1 \<and> \<not> loop_guard s1 1"
    by blast
  with h3 have "int (iterations_run s1) = 1 \<and> \<not> loop_guard s1 1"
    by simp
  with run h1 h2 g show ?thesis by blast
qed

lemma seed_bin_frame:
  "seed_bin ops C_hat (s, beta, invalid) k = Inr (s1, beta1, invalid1) \<Longrightarrow>
     iter s1 = iter s \<and> iterations_run s1 = iterations_run s \<and> freq_bins s1 = freq_bins s
     \<and> num_freq s1 = num_freq s"
  by (auto simp: seed_bin_def Let_def iterations_run_def split: if_splits)

lemma seeding_frame:
  "seeding ops C_hat ks (s, beta, invalid) = Inr (s1, beta1, invalid1) \<Longrightarrow>
     iter s1 = iter s \<and> iterations_run s1 = iterations_run s \<and> freq_bins s1 = freq_bins s
     \<and> num_freq s1 = num_freq s"
proof (induction ks arbitrary: s beta invalid)
  case Nil
  then show ?case by simp
next
  case (Cons k ks)
  from Cons.prems obtain s2 beta2 invalid2 where
    a: "seed_bin ops C_hat (s, beta, invalid) k = Inr (s2, beta2, invalid2)" and
    b: "seeding ops C_hat ks (s2, beta2, invalid2) = Inr (s1, beta1, invalid1)"
    by (auto simp: bind_err_def split: sum.splits)
  from Cons.IH [OF b] seed_bin_frame [OF a] show ?case by simp
qed

text \<open>The number of passes of the main loop in a call of \<^verbatim>\<open>_process\<close> that returns,
  as the guard on line 74 gives it.\<close>

lemma process_iteration_count:
  "process ops s X = Inr (s', l) \<Longrightarrow>
     iter s \<le> the_i l \<and> 0 \<le> the_i l \<and> the_i l \<le> max (iter s) 20
     \<and> int (iterations_run s') = int (iterations_run s) + the_i l"
proof -
  assume r: "process ops s X = Inr (s', l)"
  let ?C = "compute_correlation_matrices ops X"
  let ?s0 = "s\<lparr>calls := calls s @ [CallCorrelationMatrices]\<rparr>"
  from r obtain s1 beta invalid f0 beta' where
    sd: "seeding ops ?C [0..<num_freq s] (?s0, [], []) = Inr (s1, beta, invalid)" and
    ml: "main_loop ops ?C f0 s1 beta 0 = Inr (s', beta', the_i l)"
    by (auto simp: process_def Let_def split: sum.splits prod.splits)
  from seeding_frame [OF sd] have f: "iter s1 = iter s" "iterations_run s1 = iterations_run s"
    by (simp_all add: iterations_run_def)
  from main_loop_result [OF ml] main_loop_count [OF ml] f show ?thesis
    by (auto simp: loop_guard_def)
qed

text \<open>
  Claim C2.  The claim gives 20 as a ceiling on the number of passes of the main loop for
  every \<open>num_iter\<close>, and so does the source's comment on line 72 (\<^verbatim>\<open>maximum number of
  iterations is 20\<close>).  The guard on line 74 does not enforce it: its first disjunct
  \<^verbatim>\<open>i < self.iter\<close> has no ceiling, and \<open>i < 20\<close> bounds the second disjunct only.
  With \<open>num_iter = 21\<close> the call on the example array returns after 21 passes.
\<close>
theorem process_exceeds_twenty:
  "(case process ex_ops (ex_cssm\<lparr>iter := 21\<rparr>) ex_X of
      Inl e \<Rightarrow> False
    | Inr (s', l) \<Rightarrow> the_i l = 21 \<and> \<not> the_i l \<le> 20 \<and> iterations_run s' = 21)"
  by (simp add: pr_defs cs_defs ex_defs np_defs inv_defs ev main_loop.simps iterations_run_def)

text \<open>
  Claim C7, as amended.  With no active frequency bin, \<^verbatim>\<open>_process\<close> first calls the
  correlation-matrix estimation and then fails, with no spectrum computed, no peak
  search, no focusing and no pass of the main loop: by a \<^verbatim>\<open>ValueError\<close> of
  \<^verbatim>\<open>np.argmax\<close> on an empty sequence at the selection of the reference frequency
  (when \<^verbatim>\<open>num_freq\<close> is 0 as well; by an \<^verbatim>\<open>IndexError\<close> in the first seeding pass
  otherwise).
\<close>
theorem process_empty_frequency_set:
  "freq_bins s = [] \<Longrightarrow>
     process ops s X =
       Inl (if num_freq s = 0 then ValueError else IndexError,
            s\<lparr>calls := calls s @ [CallCorrelationMatrices]\<rparr>)"
proof -
  assume e: "freq_bins s = []"
  show ?thesis
  proof (cases "num_freq s = 0")
    case True
    with e show ?thesis
      by (simp add: process_def Let_def np_delete_def reference_frequency_def np_argmax_def
          bind_err_def)
  next
    case False
    then have "[0..<num_freq s] = 0 # [1..<num_freq s]"
      by (simp add: upt_conv_Cons)
    with e False show ?thesis
      by (simp add: process_def Let_def seed_bin_def bind_err_def)
  qed
qed

theorem process_empty_frequency_set_witness:
  "freq_bins (ex_cssm\<lparr>freq_bins := [], num_freq := 0\<rparr>) = []
   \<and> process ex_ops (ex_cssm\<lparr>freq_bins := [], num_freq := 0\<rparr>) ex_X =
       Inl (ValueError, ex_cssm\<lparr>freq_bins := [], num_freq := 0, calls := [CallCorrelationMatrices]\<rparr>)"
  using process_empty_frequency_set [of "ex_cssm\<lparr>freq_bins := [], num_freq := 0\<rparr>" ex_ops ex_X]
  by (simp add: ex_cssm_def)

text \<open>Claim C7 as stated fails: when the example fails on an empty bin set, the
  correlation-matrix estimation has been called.\<close>

theorem process_empty_calls_correlation:
  "freq_bins (ex_cssm\<lparr>freq_bins := [], num_freq := 0\<rparr>) = []
   \<and> calls (ex_cssm\<lparr>freq_bins := [], num_freq := 0\<rparr>) = []
   \<and> (case process ex_ops (ex_cssm\<lparr>freq_bins := [], num_freq := 0\<rparr>) ex_X of
        Inl (e, s') \<Rightarrow> e = ValueError \<and> calls s' = [CallCorrelationMatrices]
      | Inr r \<Rightarrow> False)"
  by (simp add: pr_defs ex_defs bind_err_def ev)

text \<open>
  Claim C8.  A pass of the main loop that completes leaves in \<^verbatim>\<open>beta\<close> one copy per
  active bin (\<^verbatim>\<open>num_freq\<close> copies) of the \<^verbatim>\<open>src_idx\<close> its peak search at \<open>f0\<close> has
  just produced; so does a run of the loop that made at least one pass.  The next pass
  therefore builds every focusing transform from the same direction list.
\<close>
theorem loop_body_broadcast:
  "(\<forall>s' beta'. loop_body ops C_hat f0 s beta = Inr (s', beta') \<longrightarrow>
       beta' = replicate (num_freq s) (src_idx s')
     \<and> length beta' = num_freq s
     \<and> (\<forall>j < num_freq s. beta' ! j = src_idx s')
     \<and> (\<exists>cross. src_idx s' = peaks1D ops (compute_spatial_spectrum ops cross f0))
     \<and> (num_freq s = length (freq_bins s) \<longrightarrow>
          (\<forall>j < length (freq_bins s'). beta' ! j = src_idx s')))
   \<and> (\<forall>s' beta' i'. main_loop ops C_hat f0 s beta i = Inr (s', beta', i') \<and> i < i' \<longrightarrow>
       beta' = replicate (num_freq s) (src_idx s')
     \<and> (\<forall>j < num_freq s. beta' ! j = src_idx s'))"
proof (intro conjI allI impI)
  fix s' beta'
  assume b: "loop_body ops C_hat f0 s beta = Inr (s', beta')"
  note f = loop_body_beta [OF b]
  from f show "beta' = replicate (num_freq s) (src_idx s')" by simp
  from f show "length beta' = num_freq s" by simp
  from f show "\<exists>cross. src_idx s' = peaks1D ops (compute_spatial_spectrum ops cross f0)" by simp
  { fix j assume "j < num_freq s"
    with f show "beta' ! j = src_idx s'" by simp }
  { fix j assume "num_freq s = length (freq_bins s)" "j < length (freq_bins s')"
    with f show "beta' ! j = src_idx s'" by simp }
next
  fix s' beta' i'
  assume "main_loop ops C_hat f0 s beta i = Inr (s', beta', i') \<and> i < i'"
  then have r: "main_loop ops C_hat f0 s beta i = Inr (s', beta', i')" and lt: "i < i'"
    by simp_all
  from main_loop_beta [OF r] lt show "beta' = replicate (num_freq s) (src_idx s')" by simp
  { fix j assume "j < num_freq s"
    with main_loop_beta [OF r] lt show "beta' ! j = src_idx s'" by simp }
qed

theorem loop_body_broadcast_witness:
  "\<exists>s1. loop_body ex_ops ex_C_hat 0 (ex_cssm\<lparr>iter := 0, src_idx := []\<rparr>) [[], [2]] =
          Inr (s1, [[2], [2]]) \<and> src_idx s1 = [2]
        \<and> [[2], [2]] = replicate (num_freq (ex_cssm\<lparr>iter := 0, src_idx := []\<rparr>)) (src_idx s1)
        \<and> num_freq (ex_cssm\<lparr>iter := 0, src_idx := []\<rparr>) = 2"
proof -
  let ?s = "ex_cssm\<lparr>iter := 0, src_idx := []\<rparr>"
  from ex_loop_body obtain s1 where
    b: "loop_body ex_ops ex_C_hat 0 ?s [[], [2]] = Inr (s1, [[2], [2]])"
    and s1: "src_idx s1 = [2]"
    by blast
  have n: "num_freq ?s = 2" by (simp add: ex_cssm_def)
  from loop_body_broadcast [of ex_ops ex_C_hat 0 ?s "[[], [2]]" 0] b
  have "[[2], [2]] = replicate (num_freq ?s) (src_idx s1)" by blast
  with b s1 n show ?thesis by blast
qed

section \<open>The reference frequency and the calls of a run: auxiliary facts\<close>

lemma argmax_scan_spec:
  assumes "xs = drop i ys" and "bi < i" and "i \<le> length ys" and "b = ys ! bi"
    and "\<forall>j<i. ys ! j \<le> b" and "\<forall>j<bi. ys ! j < b"
  shows "argmax_scan xs i bi b < length ys
     \<and> (\<forall>j<length ys. ys ! j \<le> ys ! argmax_scan xs i bi b)
     \<and> (\<forall>j<argmax_scan xs i bi b. ys ! j < ys ! argmax_scan xs i bi b)"
  using assms
proof (induction xs arbitrary: i bi b)
  case Nil
  then have "i = length ys" by simp
  with Nil show ?case by simp
next
  case (Cons x xs)
  have i: "i < length ys"
  proof (rule ccontr)
    assume "\<not> i < length ys"
    then have "drop i ys = []" by simp
    with Cons.prems(1) show False by simp
  qed
  with Cons.prems(1) have x: "x = ys ! i" and xs: "xs = drop (Suc i) ys"
    by (simp_all add: Cons_nth_drop_Suc [symmetric])
  show ?case
  proof (cases "b < x")
    case True
    have a: "\<forall>j<Suc i. ys ! j \<le> x"
      using Cons.prems(5) True x by (auto simp: less_Suc_eq intro: order_trans less_imp_le)
    have b: "\<forall>j<i. ys ! j < x"
      using Cons.prems(5) True by (auto intro: le_less_trans)
    from Cons.IH [OF xs _ _ x a b] i True show ?thesis by simp
  next
    case False
    have a: "\<forall>j<Suc i. ys ! j \<le> b"
      using Cons.prems(5) False x by (auto simp: less_Suc_eq)
    from Cons.IH [OF xs _ _ Cons.prems(4) a Cons.prems(6)] i Cons.prems(2) False
    show ?thesis by simp
  qed
qed

lemma np_argmax_spec:
  assumes "ys \<noteq> []"
  shows "\<exists>a. np_argmax ys = Inr a \<and> a < length ys \<and> (\<forall>j<length ys. ys ! j \<le> ys ! a)
     \<and> (\<forall>j<a. ys ! j < ys ! a)"
proof -
  from assms obtain x xs where ys: "ys = x # xs" by (cases ys) auto
  have "argmax_scan xs 1 0 x < length ys
     \<and> (\<forall>j<length ys. ys ! j \<le> ys ! argmax_scan xs 1 0 x)
     \<and> (\<forall>j<argmax_scan xs 1 0 x. ys ! j < ys ! argmax_scan xs 1 0 x)"
    by (rule argmax_scan_spec) (simp_all add: ys)
  then show ?thesis by (simp add: np_argmax_def ys)
qed

lemma reference_frequency_spec:
  assumes "reference_frequency s X = Inr f0"
  shows "\<exists>a<length (freq_bins s). f0 = freq_bins s ! a
          \<and> (\<forall>b<length (freq_bins s). bin_magnitude X (freq_bins s ! b) \<le> bin_magnitude X f0)
          \<and> (\<forall>b<a. bin_magnitude X (freq_bins s ! b) < bin_magnitude X f0)"
proof -
  let ?fb = "freq_bins s"
  let ?ys = "map (bin_magnitude X) ?fb"
  from assms have ne: "?ys \<noteq> []"
    by (auto simp: reference_frequency_def np_argmax_def bind_err_def split: if_splits)
  from np_argmax_spec [OF ne] obtain a where
    a: "np_argmax ?ys = Inr a" "a < length ?ys" "\<forall>j<length ?ys. ?ys ! j \<le> ?ys ! a"
      "\<forall>j<a. ?ys ! j < ?ys ! a" by blast
  from assms a(1) have f0: "f0 = ?fb ! a"
    by (auto simp: reference_frequency_def bind_err_def split: if_splits)
  from a(2,3,4) f0 show ?thesis
    by (intro exI [of _ a]) auto
qed

lemma reference_frequency_total:
  assumes "freq_bins s \<noteq> []" and "\<forall>k\<in>set (freq_bins s). k < dim1 X"
  shows "\<exists>f0. reference_frequency s X = Inr f0"
proof -
  from assms(1) have "map (bin_magnitude X) (freq_bins s) \<noteq> []" by simp
  from np_argmax_spec [OF this] obtain a where
    "np_argmax (map (bin_magnitude X) (freq_bins s)) = Inr a" by blast
  with assms(2) show ?thesis
    by (simp add: reference_frequency_def bind_err_def list_all_iff)
qed

lemma focusing_transform_cong:
  "M s' = M s \<Longrightarrow> freq_bins s' = freq_bins s \<Longrightarrow> mode_vec s' = mode_vec s \<Longrightarrow>
     focusing_transform s' f0 beta j = focusing_transform s f0 beta j"
  by (simp add: focusing_transform_def)

lemma coherent_sum_loop_cong:
  assumes "M s' = M s" and "freq_bins s' = freq_bins s" and "mode_vec s' = mode_vec s"
  shows "coherent_sum_loop s' C_hat f0 beta js R = coherent_sum_loop s C_hat f0 beta js R"
proof (induction js arbitrary: R)
  case Nil
  show ?case by simp
next
  case (Cons j js)
  have "coherent_sum_loop s' C_hat f0 beta js = coherent_sum_loop s C_hat f0 beta js"
    by (rule ext) (rule Cons.IH)
  then show ?case
    by (simp add: focusing_transform_cong [OF assms])
qed

lemma coherent_sum_cong:
  "M s' = M s \<Longrightarrow> freq_bins s' = freq_bins s \<Longrightarrow> mode_vec s' = mode_vec s \<Longrightarrow>
     coherent_sum s' C_hat f0 beta = coherent_sum s C_hat f0 beta"
  by (simp add: coherent_sum_def coherent_sum_loop_cong [of s' s])

lemma calls_ok_append:
  "calls_ok s C_hat f0 xs \<Longrightarrow> calls_ok s C_hat f0 ys \<Longrightarrow> calls_ok s C_hat f0 (xs @ ys)"
  by (auto simp: calls_ok_def)

lemma calls_ok_cong:
  "M s' = M s \<Longrightarrow> freq_bins s' = freq_bins s \<Longrightarrow> mode_vec s' = mode_vec s \<Longrightarrow>
     calls_ok s' C_hat f0 new = calls_ok s C_hat f0 new"
  by (simp add: calls_ok_def coherent_sum_cong [of s' s])

lemma calls_ok_no_coherent:
  "CallCorrelationMatrices \<notin> set new \<Longrightarrow> \<forall>c\<in>set new. \<not> is_coherent_sum c \<Longrightarrow>
     calls_ok s C_hat f0 new"
  by (auto simp: calls_ok_def)

lemma loop_body_calls:
  assumes "loop_body ops C_hat f0 s beta = Inr (s', beta')"
  shows "M s' = M s \<and> mode_vec s' = mode_vec s \<and> num_src s' = num_src s \<and>
         freq_bins s' = freq_bins s \<and>
         (\<exists>new. calls s' = calls s @ new \<and> calls_ok s C_hat f0 new)"
proof -
  from assms obtain R where r: "coherent_sum s C_hat f0 beta = Inr R"
    by (cases "coherent_sum s C_hat f0 beta") (simp_all add: loop_body_def Let_def)
  obtain Es En ws wn where d: "subspace_decomposition ops R = (Es, En, ws, wn)"
    by (cases "subspace_decomposition ops R")
  from assms r d obtain cross where x: "np_dot En (np_T (np_conjugate En)) = Inr cross"
    by (cases "np_dot En (np_T (np_conjugate En))") (simp_all add: loop_body_def Let_def)
  from assms r d x have s': "s\<lparr>P := compute_spatial_spectrum ops cross f0,
      src_idx := peaks1D ops (compute_spatial_spectrum ops cross f0),
      calls := calls s @ [CallCoherentSum C_hat f0 beta,
        CallSubspaceDecomposition R, CallSpatialSpectrum cross f0, CallPeaks1D]\<rparr> = s'"
    by (simp add: loop_body_def Let_def)
  then have c: "calls s' = calls s @ [CallCoherentSum C_hat f0 beta, CallSubspaceDecomposition R,
                        CallSpatialSpectrum cross f0, CallPeaks1D]"
    and f: "M s' = M s" "mode_vec s' = mode_vec s" "num_src s' = num_src s"
      "freq_bins s' = freq_bins s"
    by (simp_all add: s' [symmetric])
  have "calls_ok s C_hat f0 [CallCoherentSum C_hat f0 beta, CallSubspaceDecomposition R,
                        CallSpatialSpectrum cross f0, CallPeaks1D]"
    using r by (simp add: calls_ok_def)
  with c f show ?thesis by blast
qed

lemma main_loop_calls:
  "main_loop ops C_hat f0 s beta i = Inr (s', beta', i') \<Longrightarrow>
     M s' = M s \<and> mode_vec s' = mode_vec s \<and> num_src s' = num_src s \<and>
     freq_bins s' = freq_bins s \<and>
     (\<exists>new. calls s' = calls s @ new \<and> calls_ok s C_hat f0 new)"
proof (induction ops C_hat f0 s beta i rule: main_loop.induct)
  case (1 ops C_hat f0 s beta i)
  show ?case
  proof (cases "loop_guard s i")
    case False
    with "1.prems" have "s' = s" by (simp add: main_loop.simps)
    moreover have "calls s = calls s @ [] \<and> calls_ok s C_hat f0 []"
      by (simp add: calls_ok_def)
    ultimately show ?thesis by blast
  next
    case True
    with "1.prems" obtain s1 beta1 where
      body: "loop_body ops C_hat f0 s beta = Inr (s1, beta1)" and
      rest: "main_loop ops C_hat f0 s1 beta1 (i + 1) = Inr (s', beta', i')"
      by (auto simp: main_loop.simps [of ops C_hat f0 s beta i] split: sum.splits)
    from "1.IH" [OF True body refl rest] obtain n2 where
      f2: "M s' = M s1" "mode_vec s' = mode_vec s1" "num_src s' = num_src s1"
        "freq_bins s' = freq_bins s1" and
      c2: "calls s' = calls s1 @ n2" "calls_ok s1 C_hat f0 n2"
      by blast
    from loop_body_calls [OF body] obtain n1 where
      f1: "M s1 = M s" "mode_vec s1 = mode_vec s" "num_src s1 = num_src s"
        "freq_bins s1 = freq_bins s" and
      c1: "calls s1 = calls s @ n1" "calls_ok s C_hat f0 n1"
      by blast
    from c2(2) have "calls_ok s C_hat f0 n2"
      by (simp add: calls_ok_cong [OF f1(1) f1(4) f1(2)])
    with c1(2) have "calls_ok s C_hat f0 (n1 @ n2)" by (rule calls_ok_append)
    moreover have "calls s' = calls s @ (n1 @ n2)" using c1(1) c2(1) by simp
    ultimately have "\<exists>new. calls s' = calls s @ new \<and> calls_ok s C_hat f0 new" by blast
    with f1 f2 show ?thesis by simp
  qed
qed

lemma seed_bin_calls:
  "seed_bin ops C_hat (s, beta, invalid) k = Inr (s1, beta1, invalid1) \<Longrightarrow>
     M s1 = M s \<and> mode_vec s1 = mode_vec s \<and> num_src s1 = num_src s \<and>
     (\<exists>new. calls s1 = calls s @ new \<and> CallCorrelationMatrices \<notin> set new
        \<and> (\<forall>c\<in>set new. \<not> is_coherent_sum c))"
  by (auto simp: seed_bin_def Let_def split: if_splits)

lemma seeding_calls:
  "seeding ops C_hat ks (s, beta, invalid) = Inr (s1, beta1, invalid1) \<Longrightarrow>
     M s1 = M s \<and> mode_vec s1 = mode_vec s \<and> num_src s1 = num_src s \<and>
     (\<exists>new. calls s1 = calls s @ new \<and> CallCorrelationMatrices \<notin> set new
        \<and> (\<forall>c\<in>set new. \<not> is_coherent_sum c))"
proof (induction ks arbitrary: s beta invalid)
  case Nil
  then have "s1 = s" by simp
  moreover have "calls s = calls s @ [] \<and> CallCorrelationMatrices \<notin> set []
        \<and> (\<forall>c\<in>set []. \<not> is_coherent_sum c)" by simp
  ultimately show ?case by blast
next
  case (Cons k ks)
  from Cons.prems obtain s2 beta2 invalid2 where
    a: "seed_bin ops C_hat (s, beta, invalid) k = Inr (s2, beta2, invalid2)" and
    b: "seeding ops C_hat ks (s2, beta2, invalid2) = Inr (s1, beta1, invalid1)"
    by (auto simp: bind_err_def split: sum.splits)
  from seed_bin_calls [OF a] obtain n1 where
    f1: "M s2 = M s" "mode_vec s2 = mode_vec s" "num_src s2 = num_src s" and
    n1: "calls s2 = calls s @ n1" "CallCorrelationMatrices \<notin> set n1"
      "\<forall>c\<in>set n1. \<not> is_coherent_sum c" by blast
  from Cons.IH [OF b] obtain n2 where
    f2: "M s1 = M s2" "mode_vec s1 = mode_vec s2" "num_src s1 = num_src s2" and
    n2: "calls s1 = calls s2 @ n2" "CallCorrelationMatrices \<notin> set n2"
      "\<forall>c\<in>set n2. \<not> is_coherent_sum c" by blast
  have "calls s1 = calls s @ (n1 @ n2) \<and> CallCorrelationMatrices \<notin> set (n1 @ n2)
        \<and> (\<forall>c\<in>set (n1 @ n2). \<not> is_coherent_sum c)"
    using n1 n2 by auto
  then have "\<exists>new. calls s1 = calls s @ new \<and> CallCorrelationMatrices \<notin> set new
        \<and> (\<forall>c\<in>set new. \<not> is_coherent_sum c)" by blast
  with f1 f2 show ?case by simp
qed

lemma process_calls:
  assumes "process ops s X = Inr (s', l)"
  shows "reference_frequency s X = Inr (the_f0 l)
     \<and> the_C_hat l = compute_correlation_matrices ops X
     \<and> freq_bins s' = freq_bins s \<and> M s' = M s \<and> mode_vec s' = mode_vec s
     \<and> (\<exists>new. calls s' = calls s @ CallCorrelationMatrices # new
            \<and> calls_ok s (compute_correlation_matrices ops X) (the_f0 l) new)"
proof -
  let ?C = "compute_correlation_matrices ops X"
  let ?s0 = "s\<lparr>calls := calls s @ [CallCorrelationMatrices]\<rparr>"
  from assms obtain s1 beta invalid where
    sd: "seeding ops ?C [0..<num_freq s] (?s0, [], []) = Inr (s1, beta, invalid)"
    by (cases "seeding ops ?C [0..<num_freq s] (?s0, [], [])")
       (auto simp: process_def Let_def)
  from assms sd obtain df where df: "np_delete (freq_bins s1) invalid = Inr df"
    by (cases "np_delete (freq_bins s1) invalid") (simp_all add: process_def Let_def)
  from assms sd df obtain f0 where rf: "reference_frequency s1 X = Inr f0"
    by (cases "reference_frequency s1 X") (simp_all add: process_def Let_def)
  from assms sd df rf obtain s2 beta' i where
    ml: "main_loop ops ?C f0 s1 beta 0 = Inr (s2, beta', i)"
    by (cases "main_loop ops ?C f0 s1 beta 0") (auto simp: process_def Let_def)
  from assms sd df rf ml have s2: "s2 = s'" and
    l: "l = \<lparr>the_C_hat = ?C, the_invalid = invalid, the_desired_freq = df, the_f0 = f0,
             the_beta = beta', the_i = i\<rparr>"
    by (simp_all add: process_def Let_def)
  from l have f0: "the_f0 l = f0" and C: "the_C_hat l = ?C" by simp_all
  note ml = ml [unfolded s2]
  from seeding_frame [OF sd] have fb: "freq_bins s1 = freq_bins s" by simp
  from seeding_calls [OF sd] obtain n1 where
    fr: "M s1 = M s" "mode_vec s1 = mode_vec s" and
    n1: "calls s1 = calls s @ CallCorrelationMatrices # n1" "CallCorrelationMatrices \<notin> set n1"
      "\<forall>c\<in>set n1. \<not> is_coherent_sum c" by auto
  from main_loop_calls [OF ml] obtain n2 where
    n2: "calls s' = calls s1 @ n2" "calls_ok s1 ?C f0 n2" and
    fr2: "freq_bins s' = freq_bins s1" "M s' = M s1" "mode_vec s' = mode_vec s1" by blast
  from n2(2) have "calls_ok s ?C f0 n2"
    by (simp add: calls_ok_cong [OF fr(1) fb fr(2)])
  with calls_ok_no_coherent [OF n1(2,3)] have "calls_ok s ?C f0 (n1 @ n2)"
    by (rule calls_ok_append)
  moreover have "calls s' = calls s @ CallCorrelationMatrices # (n1 @ n2)"
    using n1(1) n2(1) by simp
  ultimately have "\<exists>new. calls s' = calls s @ CallCorrelationMatrices # new
            \<and> calls_ok s ?C f0 new" by blast
  with rf f0 C reference_frequency_cong [OF fb] fr fb fr2 show ?thesis by simp
qed

section \<open>Claims about the reference frequency\<close>

text \<open>
  Claim C5.  Lines 68--70 select the reference frequency once, before the main loop, as a
  function of \<^verbatim>\<open>freq_bins\<close> and \<^verbatim>\<open>X\<close> alone: it is an active bin, the one at the
  first position \<open>a\<close> of \<^verbatim>\<open>freq_bins\<close> whose magnitude, summed over the sensors and the
  time samples, is the largest (no bin has a larger sum, and every bin at an earlier
  position has a strictly smaller one; positions in \<^verbatim>\<open>freq_bins\<close> are the indices \<open>j\<close>
  by which \<^verbatim>\<open>_coherent_sum\<close> numbers the bins).  The selection succeeds when there is an
  active bin and every active bin is a bin of \<^verbatim>\<open>X\<close>.  A call of \<^verbatim>\<open>_process\<close> that
  returns has used this one value in every call of \<^verbatim>\<open>_coherent_sum\<close>, and has left
  \<^verbatim>\<open>freq_bins\<close> as it was.
\<close>
theorem reference_frequency_argmax:
  "(\<forall>f0. reference_frequency s X = Inr f0 \<longrightarrow>
        f0 \<in> set (freq_bins s)
      \<and> (\<exists>a<length (freq_bins s). f0 = freq_bins s ! a
           \<and> (\<forall>b<length (freq_bins s).
                 bin_magnitude X (freq_bins s ! b) \<le> bin_magnitude X (freq_bins s ! a))
           \<and> (\<forall>b<a. bin_magnitude X (freq_bins s ! b) < bin_magnitude X (freq_bins s ! a))))
   \<and> (freq_bins s \<noteq> [] \<and> (\<forall>k\<in>set (freq_bins s). k < dim1 X) \<longrightarrow>
        (\<exists>f0. reference_frequency s X = Inr f0))
   \<and> (\<forall>s' l. process ops s X = Inr (s', l) \<longrightarrow>
        reference_frequency s X = Inr (the_f0 l) \<and> the_f0 l \<in> set (freq_bins s)
      \<and> freq_bins s' = freq_bins s
      \<and> (\<forall>C f b. CallCoherentSum C f b \<in> set (calls s') - set (calls s) \<longrightarrow> f = the_f0 l))"
proof (intro conjI allI impI)
  fix f0
  assume r: "reference_frequency s X = Inr f0"
  from reference_frequency_spec [OF r] obtain a where
    a: "a < length (freq_bins s)" "f0 = freq_bins s ! a"
      "\<forall>b<length (freq_bins s). bin_magnitude X (freq_bins s ! b) \<le> bin_magnitude X f0"
      "\<forall>b<a. bin_magnitude X (freq_bins s ! b) < bin_magnitude X f0"
    by blast
  from a(1,2) show "f0 \<in> set (freq_bins s)" by simp
  from a show "\<exists>a<length (freq_bins s). f0 = freq_bins s ! a
           \<and> (\<forall>b<length (freq_bins s).
                 bin_magnitude X (freq_bins s ! b) \<le> bin_magnitude X (freq_bins s ! a))
           \<and> (\<forall>b<a. bin_magnitude X (freq_bins s ! b) < bin_magnitude X (freq_bins s ! a))"
    by blast
next
  assume "freq_bins s \<noteq> [] \<and> (\<forall>k\<in>set (freq_bins s). k < dim1 X)"
  then show "\<exists>f0. reference_frequency s X = Inr f0"
    using reference_frequency_total [of s X] by blast
next
  fix s' l
  assume p: "process ops s X = Inr (s', l)"
  from process_calls [OF p] obtain new where
    rf: "reference_frequency s X = Inr (the_f0 l)" and
    c: "calls s' = calls s @ CallCorrelationMatrices # new" and
    ok: "calls_ok s (compute_correlation_matrices ops X) (the_f0 l) new"
    by blast
  from rf show "reference_frequency s X = Inr (the_f0 l)" .
  from reference_frequency_spec [OF rf] show "the_f0 l \<in> set (freq_bins s)" by auto
  from process_calls [OF p] show "freq_bins s' = freq_bins s" by simp
  { fix C f b
    assume "CallCoherentSum C f b \<in> set (calls s') - set (calls s)"
    with c have "CallCoherentSum C f b \<in> set new" by auto
    with ok show "f = the_f0 l" by (simp add: calls_ok_def) }
qed

theorem reference_frequency_argmax_witness:
  "reference_frequency ex_cssm ex_X = Inr 0
   \<and> 0 \<in> set (freq_bins ex_cssm)
   \<and> bin_magnitude ex_X 0 = 4 \<and> bin_magnitude ex_X (freq_bins ex_cssm ! Suc 0) = 2
   \<and> freq_bins ex_cssm \<noteq> [] \<and> list_all (\<lambda>k. k < dim1 ex_X) (freq_bins ex_cssm)
   \<and> (\<exists>s' l. process ex_ops ex_cssm ex_X = Inr (s', l) \<and> the_f0 l = 0
         \<and> freq_bins s' = freq_bins ex_cssm)
   \<and> reference_frequency (ex_cssm\<lparr>freq_bins := [2, 0]\<rparr>)
        \<lparr>dim0 = 2, dim1 = 3, dim2 = 1, at3 = (\<lambda>m k t. \<i>)\<rparr> = Inr 2"
proof -
  note inst = reference_frequency_argmax [of ex_cssm ex_X ex_ops]
  have ne: "freq_bins ex_cssm \<noteq> []" and rng: "list_all (\<lambda>k. k < dim1 ex_X) (freq_bins ex_cssm)"
    by (simp_all add: ex_cssm_def ex_X_def)
  from rng have "\<forall>k\<in>set (freq_bins ex_cssm). k < dim1 ex_X" by (simp add: list_all_iff)
  with ne inst obtain f0 where f0: "reference_frequency ex_cssm ex_X = Inr f0" by blast
  have "reference_frequency ex_cssm ex_X = Inr 0"
    by (simp add: pr_defs ex_defs bind_err_def ev)
  with f0 have z: "f0 = 0" by simp
  from inst f0 have "f0 \<in> set (freq_bins ex_cssm)" by blast
  with z have mem: "0 \<in> set (freq_bins ex_cssm)" by simp
  have mag: "bin_magnitude ex_X 0 = 4" "bin_magnitude ex_X (freq_bins ex_cssm ! Suc 0) = 2"
    by (simp_all add: bin_magnitude_def ex_defs ev)
  have "\<exists>s' l. process ex_ops ex_cssm ex_X = Inr (s', l)"
    by (simp add: pr_defs cs_defs ex_defs np_defs inv_defs ev main_loop.simps)
  then obtain s' l where p: "process ex_ops ex_cssm ex_X = Inr (s', l)" by blast
  with inst have "reference_frequency ex_cssm ex_X = Inr (the_f0 l) \<and> freq_bins s' = freq_bins ex_cssm"
    by blast
  with f0 z have "the_f0 l = 0 \<and> freq_bins s' = freq_bins ex_cssm" by simp
  with p have run: "\<exists>s' l. process ex_ops ex_cssm ex_X = Inr (s', l) \<and> the_f0 l = 0
         \<and> freq_bins s' = freq_bins ex_cssm" by blast
  have tie: "reference_frequency (ex_cssm\<lparr>freq_bins := [2, 0]\<rparr>)
        \<lparr>dim0 = 2, dim1 = 3, dim2 = 1, at3 = (\<lambda>m k t. \<i>)\<rparr> = Inr 2"
    by (simp add: pr_defs ex_defs bind_err_def ev)
  from f0 z mem mag ne rng run tie show ?thesis by blast
qed

section \<open>Matrices: auxiliary facts\<close>

lemma nrows_mk_mat: "nrows (mk_mat r c f) = r"
  by (simp add: mk_mat_def)

lemma ncols_mk_mat: "ncols (mk_mat r c f) = c"
  by (simp add: mk_mat_def)

lemma ent_mk_mat: "i < r \<Longrightarrow> j < c \<Longrightarrow> ent (mk_mat r c f) i j = f i j"
  by (simp add: mk_mat_def ent_def)

lemma wf_mk_mat: "wf_mat (mk_mat r c f)"
  by (simp add: wf_mat_def mk_mat_def list_all_iff)

lemmas mk_mat_simps = nrows_mk_mat ncols_mk_mat ent_mk_mat wf_mk_mat

lemma mk_mat_cong:
  assumes "\<And>i j. i < r \<Longrightarrow> j < c \<Longrightarrow> f i j = g i j"
  shows "mk_mat r c f = mk_mat r c g"
  using assms by (simp add: mk_mat_def)

lemma mk_mat_ent:
  assumes "wf_mat A"
  shows "mk_mat (nrows A) (ncols A) (ent A) = A"
proof -
  have len: "length (rows A) = nrows A" and row: "\<And>i. i < nrows A \<Longrightarrow> length (rows A ! i) = ncols A"
    using assms by (auto simp: wf_mat_def list_all_iff)
  have "map (\<lambda>i. map (\<lambda>j. rows A ! i ! j) [0..<ncols A]) [0..<nrows A] = rows A"
  proof (rule nth_equalityI)
    show "length (map (\<lambda>i. map (\<lambda>j. rows A ! i ! j) [0..<ncols A]) [0..<nrows A]) = length (rows A)"
      by (simp add: len)
  next
    fix i assume "i < length (map (\<lambda>i. map (\<lambda>j. rows A ! i ! j) [0..<ncols A]) [0..<nrows A])"
    then have i: "i < nrows A" by simp
    have "map (\<lambda>j. rows A ! i ! j) [0..<ncols A] = rows A ! i"
      by (rule nth_equalityI) (simp_all add: row [OF i])
    with i show "map (\<lambda>i. map (\<lambda>j. rows A ! i ! j) [0..<ncols A]) [0..<nrows A] ! i = rows A ! i"
      by simp
  qed
  then show ?thesis
    by (cases A) (simp add: mk_mat_def ent_def)
qed

lemma cmat_eqI:
  assumes "wf_mat A" and "wf_mat B" and "nrows A = nrows B" and "ncols A = ncols B"
    and "\<And>i j. i < nrows A \<Longrightarrow> j < ncols A \<Longrightarrow> ent A i j = ent B i j"
  shows "A = B"
proof -
  have "mk_mat (nrows A) (ncols A) (ent A) = mk_mat (nrows A) (ncols A) (ent B)"
    by (rule mk_mat_cong) (rule assms(5))
  with mk_mat_ent [OF assms(1)] mk_mat_ent [OF assms(2)] assms(3,4) show ?thesis by simp
qed

lemma np_T_mk_mat: "np_T (mk_mat r c f) = mk_mat c r (\<lambda>i j. f j i)"
  unfolding np_T_def nrows_mk_mat ncols_mk_mat
  by (rule mk_mat_cong) (simp add: ent_mk_mat)

lemma sum_list_upt: "sum_list (map f [0..<n]) = (\<Sum>k<n. f k)"
  by (simp add: interv_sum_list_conv_sum_set_nat atLeast0LessThan)

lemma np_dot_ok:
  assumes "ncols A = nrows B"
  shows "np_dot A B = Inr (mk_mat (nrows A) (ncols B) (\<lambda>i j. \<Sum>k<ncols A. ent A i k * ent B k j))"
  using assms by (simp add: np_dot_def sum_list_upt)

lemma np_dot_Inr:
  assumes "np_dot A B = Inr D"
  shows "ncols A = nrows B \<and> D = mk_mat (nrows A) (ncols B) (\<lambda>i j. \<Sum>k<ncols A. ent A i k * ent B k j)"
  using assms by (auto simp: np_dot_def sum_list_upt split: if_splits)

lemma np_add_Inr:
  assumes "np_add A B = Inr D"
  shows "nrows A = nrows B \<and> ncols A = ncols B
     \<and> D = mk_mat (nrows A) (ncols A) (\<lambda>i j. ent A i j + ent B i j)"
  using assms by (auto simp: np_add_def split: if_splits)

section \<open>The inversion is sound\<close>

text \<open>When the elimination returns a matrix \<open>Y\<close> for a well-formed matrix \<open>A\<close>, then \<open>A\<close> is
  square and \<open>Y \<cdot> A\<close> and \<open>A \<cdot> Y\<close> are the identity.\<close>

lemma find_pivot_Some:
  "find_pivot c i ws = Some p \<Longrightarrow> i \<le> p \<and> p < i + length ws \<and> c \<le> p \<and> fst (ws ! (p - i)) ! c \<noteq> 0"
proof (induction ws arbitrary: i)
  case Nil
  then show ?case by simp
next
  case (Cons w ws)
  show ?case
  proof (cases "c \<le> i \<and> fst w ! c \<noteq> 0")
    case True
    with Cons.prems show ?thesis by simp
  next
    case False
    with Cons.prems have "find_pivot c (Suc i) ws = Some p" by auto
    from Cons.IH [OF this] show ?thesis by (auto simp: Suc_diff_le)
  qed
qed

lemma swap_rows_nth:
  assumes "c < length ws" and "p < length ws" and "i < length ws"
  shows "swap_rows c p ws ! i = ws ! swap_ix c p i"
  using assms by (auto simp: swap_rows_def swap_ix_def nth_list_update)

lemma gj_step_Some:
  assumes "gj_step c ws = Some ws'" and "shaped n ws" and "c < n"
  shows "\<exists>p. c \<le> p \<and> p < n \<and> Lf ws p c \<noteq> 0 \<and> shaped n ws'
     \<and> (\<forall>i<n. \<forall>j<n. Lf ws' i j = row_op c p (Lf ws) (Lf ws) i j
                   \<and> Rf ws' i j = row_op c p (Lf ws) (Rf ws) i j)"
proof -
  from assms(1) obtain p where piv: "find_pivot c 0 ws = Some p"
    by (auto simp: gj_step_def split: option.splits)
  from find_pivot_Some [OF piv] assms(2) have p: "c \<le> p" "p < n" "Lf ws p c \<noteq> 0"
    by (simp_all add: shaped_def Lf_def)
  from assms(2) have len: "length ws = n"
    and sh: "\<And>i. i < n \<Longrightarrow> length (fst (ws ! i)) = n \<and> length (snd (ws ! i)) = n"
    by (simp_all add: shaped_def)
  let ?ws1 = "swap_rows c p ws"
  have len1: "length ?ws1 = n" by (simp add: swap_rows_def len)
  have nth1: "\<And>i. i < n \<Longrightarrow> ?ws1 ! i = ws ! swap_ix c p i"
    using swap_rows_nth [of c ws p] assms(3) p(2) len by simp
  have sw: "\<And>i. i < n \<Longrightarrow> swap_ix c p i < n"
    using assms(3) p(2) by (simp add: swap_ix_def)
  have swc: "swap_ix c p c = p" by (simp add: swap_ix_def)
  let ?piv = "fst (?ws1 ! c) ! c"
  let ?pr = "(smult (1 / ?piv) (fst (?ws1 ! c)), smult (1 / ?piv) (snd (?ws1 ! c)))"
  from assms(1) piv have ws': "ws' = map2 (eliminate c ?pr) [0..<length ?ws1] ?ws1"
    by (simp add: gj_step_def Let_def)
  have nth': "ws' ! i = eliminate c ?pr i (ws ! swap_ix c p i)" if "i < n" for i
    using that by (simp add: ws' len1 nth1)
  have pivv: "?piv = Lf ws p c"
    using assms(3) by (simp add: nth1 swc Lf_def)
  have len': "length ws' = n" by (simp add: ws' len1)
  have lpr: "length (fst ?pr) = n" "length (snd ?pr) = n"
    using sh [OF p(2)] assms(3) by (simp_all add: smult_def nth1 swc)
  have prj: "fst ?pr ! j = Lf ws p j / Lf ws p c" "snd ?pr ! j = Rf ws p j / Lf ws p c"
    if "j < n" for j
    using that sh [OF p(2)] assms(3)
    by (simp_all add: smult_def nth1 swc Lf_def Rf_def)
  have shape': "shaped n ws'"
    unfolding shaped_def
  proof (intro conjI allI impI)
    show "length ws' = n" by (rule len')
  next
    fix i assume i: "i < n"
    show "length (fst (ws' ! i)) = n"
      using sh [OF sw [OF i]] lpr by (simp add: nth' [OF i] eliminate_def vsub_def smult_def)
    show "length (snd (ws' ! i)) = n"
      using sh [OF sw [OF i]] lpr by (simp add: nth' [OF i] eliminate_def vsub_def smult_def)
  qed
  have ents: "Lf ws' i j = row_op c p (Lf ws) (Lf ws) i j
            \<and> Rf ws' i j = row_op c p (Lf ws) (Rf ws) i j" if i: "i < n" and j: "j < n" for i j
  proof (cases "i = c")
    case True
    with prj [OF j] i show ?thesis
      by (simp add: Lf_def [of ws'] Rf_def [of ws'] nth' eliminate_def row_op_def)
  next
    case False
    let ?w = "ws ! swap_ix c p i"
    have lw: "length (fst ?w) = n" "length (snd ?w) = n"
      using sh [OF sw [OF i]] by simp_all
    have a: "fst (ws' ! i) ! j = fst ?w ! j - fst ?w ! c * (fst ?pr ! j)"
      using False i j lw lpr assms(3)
      by (simp add: nth' eliminate_def vsub_def smult_def)
    have b: "snd (ws' ! i) ! j = snd ?w ! j - fst ?w ! c * (snd ?pr ! j)"
      using False i j lw lpr assms(3)
      by (simp add: nth' eliminate_def vsub_def smult_def)
    from a b prj [OF j] False show ?thesis
      by (simp add: Lf_def Rf_def row_op_def)
  qed
  from p shape' ents show ?thesis by blast
qed

lemma sum_delta_mult:
  fixes g :: "nat \<Rightarrow> complex"
  assumes "x < n"
  shows "(\<Sum>k<n. (if k = x then u else 0) * g k) = u * g x"
proof -
  have "(\<Sum>k<n. (if k = x then u else 0) * g k) = (\<Sum>k\<in>{..<n}. if k = x then u * g k else 0)"
    by (rule sum.cong) auto
  also have "\<dots> = u * g x" using assms by (simp add: sum.delta)
  finally show ?thesis .
qed

lemma sum_delta_mult2:
  fixes g :: "nat \<Rightarrow> complex"
  assumes "x < n"
  shows "(\<Sum>k<n. g k * (if k = x then u else 0)) = g x * u"
  using sum_delta_mult [OF assms, of u g] by (simp add: mult.commute)

lemma swap_ix_less: "c < n \<Longrightarrow> p < n \<Longrightarrow> i < n \<Longrightarrow> swap_ix c p i < n"
  by (simp add: swap_ix_def)

lemma row_op_left:
  assumes inv: "\<forall>i<n. \<forall>j<n. L i j = (\<Sum>k<n. R i k * A k j)"
    and "p < n" and "c < n" and "i < n" and "j < n"
  shows "row_op c p L L i j = (\<Sum>k<n. row_op c p L R i k * A k j)"
proof -
  have s: "swap_ix c p i < n" using assms by (simp add: swap_ix_less)
  have lp: "L p j = (\<Sum>k<n. R p k * A k j)" using inv assms(2,5) by simp
  have ls: "L (swap_ix c p i) j = (\<Sum>k<n. R (swap_ix c p i) k * A k j)" using inv s assms(5) by simp
  show ?thesis
  proof (cases "i = c")
    case True
    then show ?thesis
      by (simp add: row_op_def lp sum_divide_distrib)
  next
    case False
    have "(\<Sum>k<n. (R (swap_ix c p i) k - L (swap_ix c p i) c * (R p k / L p c)) * A k j)
        = (\<Sum>k<n. R (swap_ix c p i) k * A k j)
          - L (swap_ix c p i) c * ((\<Sum>k<n. R p k * A k j) / L p c)"
      by (simp add: left_diff_distrib sum_subtractf sum_distrib_left sum_divide_distrib
          mult.assoc)
    with False show ?thesis
      by (simp add: row_op_def lp ls)
  qed
qed

lemma row_op_unit:
  assumes inv: "\<forall>i<n. \<forall>j<c. L i j = (if i = j then 1 else 0)"
    and "c \<le> p" and "p < n" and "c < n" and "L p c \<noteq> 0" and "i < n" and "j < Suc c"
  shows "row_op c p L L i j = (if i = j then 1 else 0)"
proof (cases "j = c")
  case True
  with assms(5) show ?thesis by (simp add: row_op_def)
next
  case False
  with assms(7) have j: "j < c" by simp
  have s: "swap_ix c p i < n" using assms by (simp add: swap_ix_less)
  from inv assms(2,3) j have lp: "L p j = 0" by simp
  from inv s j have ls: "L (swap_ix c p i) j = (if swap_ix c p i = j then 1 else 0)" by simp
  show ?thesis
  proof (cases "i = c")
    case True
    with lp j show ?thesis by (simp add: row_op_def)
  next
    case False
    with lp ls j assms(2) show ?thesis by (auto simp: row_op_def swap_ix_def)
  qed
qed

lemma row_op_back:
  assumes "p < n" and "c < n" and "L p c \<noteq> 0" and "m < n"
  shows "V m j = (\<Sum>k<n. back_op c p L m k * row_op c p L V k j)"
proof (cases "m = p")
  case True
  have "(\<Sum>k<n. (if k = c then L p c else 0) * row_op c p L V k j) = L p c * row_op c p L V c j"
    by (rule sum_delta_mult [OF assms(2)])
  with True assms(3) show ?thesis by (simp add: back_op_def row_op_def)
next
  case False
  let ?s = "swap_ix c p m"
  have s: "?s < n" using assms by (simp add: swap_ix_less)
  have sc: "?s \<noteq> c" using False by (simp add: swap_ix_def)
  have ss: "swap_ix c p ?s = m" by (simp add: swap_ix_def)
  have "(\<Sum>k<n. ((if k = ?s then 1 else 0) + (if k = c then L m c else 0)) * row_op c p L V k j)
      = (\<Sum>k<n. (if k = ?s then 1 else 0) * row_op c p L V k j)
        + (\<Sum>k<n. (if k = c then L m c else 0) * row_op c p L V k j)"
    by (simp add: distrib_right sum.distrib)
  also have "\<dots> = row_op c p L V ?s j + L m c * row_op c p L V c j"
    by (simp only: sum_delta_mult [OF s] sum_delta_mult [OF assms(2)] mult_1)
  also have "\<dots> = V m j"
    using sc by (simp add: row_op_def ss)
  finally show ?thesis using False by (simp add: back_op_def)
qed

lemma coeff_step:
  fixes T :: "nat \<Rightarrow> nat \<Rightarrow> complex"
  assumes a: "\<forall>i<n. \<forall>j<n. T i j = (\<Sum>k<n. a i k * V k j)"
    and bk: "\<forall>m<n. \<forall>j<n. V m j = (\<Sum>k<n. b m k * V' k j)"
    and "i < n" and "j < n"
  shows "T i j = (\<Sum>k<n. (\<Sum>m<n. a i m * b m k) * V' k j)"
proof -
  have "T i j = (\<Sum>m<n. a i m * V m j)" using a assms(3,4) by simp
  also have "\<dots> = (\<Sum>m<n. a i m * (\<Sum>k<n. b m k * V' k j))"
    by (rule sum.cong) (simp_all add: bk assms(4))
  also have "\<dots> = (\<Sum>m<n. \<Sum>k<n. a i m * b m k * V' k j)"
    by (simp add: sum_distrib_left mult.assoc)
  also have "\<dots> = (\<Sum>k<n. \<Sum>m<n. a i m * b m k * V' k j)"
    by (rule sum.swap)
  also have "\<dots> = (\<Sum>k<n. (\<Sum>m<n. a i m * b m k) * V' k j)"
    by (simp add: sum_distrib_right)
  finally show ?thesis .
qed

lemma gj_step_inv:
  assumes step: "gj_step c ws = Some ws'" and c: "c < n" and inv: "gj_inv n A c ws"
  shows "gj_inv n A (Suc c) ws'"
proof -
  from inv have sh: "shaped n ws"
    and i1: "\<forall>i<n. \<forall>j<n. Lf ws i j = (\<Sum>k<n. Rf ws i k * A k j)"
    and i2: "\<forall>i<n. \<forall>j<c. Lf ws i j = (if i = j then 1 else 0)"
    by (simp_all add: gj_inv_def)
  from inv obtain a where
    i3: "\<forall>i<n. \<forall>j<n. A i j = (\<Sum>k<n. a i k * Lf ws k j)
                      \<and> (if i = j then 1 else 0) = (\<Sum>k<n. a i k * Rf ws k j)"
    unfolding gj_inv_def by blast
  from gj_step_Some [OF step sh c] obtain p where
    p: "c \<le> p" "p < n" "Lf ws p c \<noteq> 0" and sh': "shaped n ws'" and
    e: "\<forall>i<n. \<forall>j<n. Lf ws' i j = row_op c p (Lf ws) (Lf ws) i j
                   \<and> Rf ws' i j = row_op c p (Lf ws) (Rf ws) i j"
    by blast
  have eL: "\<And>i j. i < n \<Longrightarrow> j < n \<Longrightarrow> Lf ws' i j = row_op c p (Lf ws) (Lf ws) i j"
    and eR: "\<And>i j. i < n \<Longrightarrow> j < n \<Longrightarrow> Rf ws' i j = row_op c p (Lf ws) (Rf ws) i j"
    using e by simp_all
  have n1: "\<forall>i<n. \<forall>j<n. Lf ws' i j = (\<Sum>k<n. Rf ws' i k * A k j)"
  proof (intro allI impI)
    fix i j assume i: "i < n" and j: "j < n"
    have "Lf ws' i j = (\<Sum>k<n. row_op c p (Lf ws) (Rf ws) i k * A k j)"
      using row_op_left [OF i1 p(2) c i j] eL [OF i j] by simp
    also have "\<dots> = (\<Sum>k<n. Rf ws' i k * A k j)"
      by (rule sum.cong) (simp_all add: eR [OF i])
    finally show "Lf ws' i j = (\<Sum>k<n. Rf ws' i k * A k j)" .
  qed
  have n2: "\<forall>i<n. \<forall>j<Suc c. Lf ws' i j = (if i = j then 1 else 0)"
  proof (intro allI impI)
    fix i j assume i: "i < n" and j: "j < Suc c"
    with c have jn: "j < n" by simp
    from row_op_unit [OF i2 p(1) p(2) c p(3) i j] eL [OF i jn]
    show "Lf ws' i j = (if i = j then 1 else 0)" by simp
  qed
  have bL: "\<forall>m<n. \<forall>j<n. Lf ws m j = (\<Sum>k<n. back_op c p (Lf ws) m k * Lf ws' k j)"
  proof (intro allI impI)
    fix m j assume m: "m < n" and j: "j < n"
    have "Lf ws m j = (\<Sum>k<n. back_op c p (Lf ws) m k * row_op c p (Lf ws) (Lf ws) k j)"
      by (rule row_op_back [where L = "Lf ws" and V = "Lf ws", OF p(2) c p(3) m])
    also have "\<dots> = (\<Sum>k<n. back_op c p (Lf ws) m k * Lf ws' k j)"
      by (rule sum.cong) (simp_all add: eL j)
    finally show "Lf ws m j = (\<Sum>k<n. back_op c p (Lf ws) m k * Lf ws' k j)" .
  qed
  have bR: "\<forall>m<n. \<forall>j<n. Rf ws m j = (\<Sum>k<n. back_op c p (Lf ws) m k * Rf ws' k j)"
  proof (intro allI impI)
    fix m j assume m: "m < n" and j: "j < n"
    have "Rf ws m j = (\<Sum>k<n. back_op c p (Lf ws) m k * row_op c p (Lf ws) (Rf ws) k j)"
      by (rule row_op_back [where L = "Lf ws" and V = "Rf ws", OF p(2) c p(3) m])
    also have "\<dots> = (\<Sum>k<n. back_op c p (Lf ws) m k * Rf ws' k j)"
      by (rule sum.cong) (simp_all add: eR j)
    finally show "Rf ws m j = (\<Sum>k<n. back_op c p (Lf ws) m k * Rf ws' k j)" .
  qed
  let ?a = "\<lambda>i k. \<Sum>m<n. a i m * back_op c p (Lf ws) m k"
  have aL: "\<forall>i<n. \<forall>j<n. A i j = (\<Sum>k<n. a i k * Lf ws k j)"
    and aR: "\<forall>i<n. \<forall>j<n. (if i = j then 1 else 0) = (\<Sum>k<n. a i k * Rf ws k j)"
    using i3 by simp_all
  have n3: "\<forall>i<n. \<forall>j<n. A i j = (\<Sum>k<n. ?a i k * Lf ws' k j)
                      \<and> (if i = j then 1 else 0) = (\<Sum>k<n. ?a i k * Rf ws' k j)"
  proof (intro allI impI conjI)
    fix i j assume i: "i < n" and j: "j < n"
    show "A i j = (\<Sum>k<n. ?a i k * Lf ws' k j)"
      by (rule coeff_step [OF aL bL i j])
    show "(if i = j then 1 else 0) = (\<Sum>k<n. ?a i k * Rf ws' k j)"
      by (rule coeff_step [OF aR bR i j])
  qed
  then have "\<exists>a. \<forall>i<n. \<forall>j<n. A i j = (\<Sum>k<n. a i k * Lf ws' k j)
                      \<and> (if i = j then 1 else 0) = (\<Sum>k<n. a i k * Rf ws' k j)"
    by (rule exI [of _ ?a])
  with sh' n1 n2 show ?thesis unfolding gj_inv_def by blast
qed

lemma gauss_jordan_inv:
  "gauss_jordan fuel c ws = Some ws' \<Longrightarrow> c + fuel = n \<Longrightarrow> gj_inv n A c ws \<Longrightarrow> gj_inv n A n ws'"
proof (induction fuel arbitrary: c ws)
  case 0
  then show ?case by simp
next
  case (Suc fuel)
  from Suc.prems(1) obtain ws1 where s: "gj_step c ws = Some ws1"
    and r: "gauss_jordan fuel (Suc c) ws1 = Some ws'"
    by (auto split: option.splits)
  from Suc.prems(2) have c: "c < n" by simp
  from gj_step_inv [OF s c Suc.prems(3)] have "gj_inv n A (Suc c) ws1" .
  from Suc.IH [OF r _ this] Suc.prems(2) show ?case by simp
qed

lemma gj_inv_initial:
  assumes "wf_mat A" and "nrows A = ncols A"
  shows "gj_inv (nrows A) (ent A) 0 (zip (rows A) (rows (np_identity (nrows A))))"
proof -
  let ?n = "nrows A"
  let ?ws = "zip (rows A) (rows (np_identity ?n))"
  from assms have len: "length (rows A) = ?n"
    and row: "\<And>i. i < ?n \<Longrightarrow> length (rows A ! i) = ?n"
    by (auto simp: wf_mat_def list_all_iff)
  have nth: "?ws ! i = (rows A ! i, map (\<lambda>j. if i = j then 1 else 0) [0..<?n])" if "i < ?n" for i
    using that len by (simp add: np_identity_def mk_mat_def)
  have L: "Lf ?ws i j = ent A i j" if "i < ?n" for i j
    using that by (simp add: Lf_def nth ent_def)
  have R: "Rf ?ws i j = (if i = j then 1 else 0)" if "i < ?n" "j < ?n" for i j
    using that by (simp add: Rf_def nth)
  have sh: "shaped ?n ?ws"
    using len row by (simp add: shaped_def nth np_identity_def mk_mat_def)
  have d: "(\<Sum>k<?n. (if i = k then 1 else 0) * g k) = g i" if "i < ?n" for i and g :: "nat \<Rightarrow> complex"
  proof -
    have "(\<Sum>k<?n. (if i = k then 1 else 0) * g k) = (\<Sum>k<?n. (if k = i then 1 else 0) * g k)"
      by (rule sum.cong) auto
    with sum_delta_mult [OF that, of 1 g] show ?thesis by simp
  qed
  have i1: "\<forall>i<?n. \<forall>j<?n. Lf ?ws i j = (\<Sum>k<?n. Rf ?ws i k * ent A k j)"
  proof (intro allI impI)
    fix i j assume i: "i < ?n" and j: "j < ?n"
    have "(\<Sum>k<?n. Rf ?ws i k * ent A k j) = (\<Sum>k<?n. (if i = k then 1 else 0) * ent A k j)"
      by (rule sum.cong) (simp_all add: R [OF i])
    with d [OF i] L [OF i] show "Lf ?ws i j = (\<Sum>k<?n. Rf ?ws i k * ent A k j)" by simp
  qed
  have i3: "\<forall>i<?n. \<forall>j<?n. ent A i j = (\<Sum>k<?n. (if i = k then 1 else 0) * Lf ?ws k j)
                      \<and> (if i = j then 1 else 0) = (\<Sum>k<?n. (if i = k then 1 else 0) * Rf ?ws k j)"
  proof (intro allI impI conjI)
    fix i j assume i: "i < ?n" and j: "j < ?n"
    show "ent A i j = (\<Sum>k<?n. (if i = k then 1 else 0) * Lf ?ws k j)"
      using d [OF i, of "\<lambda>k. Lf ?ws k j"] L [OF i] by simp
    show "(if i = j then 1 else 0) = (\<Sum>k<?n. (if i = k then 1 else 0) * Rf ?ws k j)"
      using d [OF i, of "\<lambda>k. Rf ?ws k j"] R [OF i j] by simp
  qed
  then have "\<exists>a. \<forall>i<?n. \<forall>j<?n. ent A i j = (\<Sum>k<?n. a i k * Lf ?ws k j)
                      \<and> (if i = j then 1 else 0) = (\<Sum>k<?n. a i k * Rf ?ws k j)"
    by (rule exI [of _ "\<lambda>i k. if i = k then 1 else 0"])
  with sh i1 show ?thesis unfolding gj_inv_def by simp
qed

lemma np_linalg_inv_sound:
  assumes "wf_mat A" and "np_linalg_inv A = Inr Y"
  shows "nrows A = ncols A \<and> nrows Y = nrows A \<and> ncols Y = nrows A \<and> wf_mat Y
   \<and> (\<forall>i<nrows A. \<forall>j<nrows A. (\<Sum>k<nrows A. ent Y i k * ent A k j) = (if i = j then 1 else 0))
   \<and> (\<forall>i<nrows A. \<forall>j<nrows A. (\<Sum>k<nrows A. ent A i k * ent Y k j) = (if i = j then 1 else 0))"
proof -
  let ?n = "nrows A"
  from assms(2) have sq: "nrows A = ncols A"
    by (auto simp: np_linalg_inv_def split: if_splits)
  from assms(2) sq obtain ws where
    gj: "gauss_jordan ?n 0 (zip (rows A) (rows (np_identity ?n))) = Some ws"
    and Y: "Y = Mat ?n ?n (map snd ws)"
    by (auto simp: np_linalg_inv_def split: option.splits)
  from gauss_jordan_inv [OF gj _ gj_inv_initial [OF assms(1) sq]] have inv: "gj_inv ?n (ent A) ?n ws"
    by simp
  then have sh: "shaped ?n ws"
    and i1: "\<forall>i<?n. \<forall>j<?n. Lf ws i j = (\<Sum>k<?n. Rf ws i k * ent A k j)"
    and i2: "\<forall>i<?n. \<forall>j<?n. Lf ws i j = (if i = j then 1 else 0)"
    unfolding gj_inv_def by blast+
  from inv obtain a where
    aL: "\<forall>i<?n. \<forall>j<?n. ent A i j = (\<Sum>k<?n. a i k * Lf ws k j)" and
    aR: "\<forall>i<?n. \<forall>j<?n. (if i = j then 1 else 0) = (\<Sum>k<?n. a i k * Rf ws k j)"
    unfolding gj_inv_def by blast
  from sh have len: "length ws = ?n" and rl: "\<And>i. i < ?n \<Longrightarrow> length (snd (ws ! i)) = ?n"
    by (simp_all add: shaped_def)
  have eY: "ent Y i k = Rf ws i k" if "i < ?n" for i k
    using that len by (simp add: Y ent_def Rf_def)
  have wfY: "wf_mat Y"
    unfolding Y wf_mat_def list_all_iff
  proof (intro conjI ballI)
    show "length (rows (Mat ?n ?n (map snd ws))) = nrows (Mat ?n ?n (map snd ws))"
      by (simp add: len)
  next
    fix r assume "r \<in> set (rows (Mat ?n ?n (map snd ws)))"
    then obtain i where "i < ?n" and "r = snd (ws ! i)"
      by (auto simp: in_set_conv_nth len)
    with rl show "length r = ncols (Mat ?n ?n (map snd ws))" by simp
  qed
  have g1: "\<forall>i<?n. \<forall>j<?n. (\<Sum>k<?n. ent Y i k * ent A k j) = (if i = j then 1 else 0)"
  proof (intro allI impI)
    fix i j assume i: "i < ?n" and j: "j < ?n"
    have "(\<Sum>k<?n. ent Y i k * ent A k j) = (\<Sum>k<?n. Rf ws i k * ent A k j)"
      by (rule sum.cong) (simp_all add: eY [OF i])
    with i1 i2 i j show "(\<Sum>k<?n. ent Y i k * ent A k j) = (if i = j then 1 else 0)" by simp
  qed
  have a_eq: "a i j = ent A i j" if i: "i < ?n" and j: "j < ?n" for i j
  proof -
    have "ent A i j = (\<Sum>k<?n. a i k * Lf ws k j)" using aL i j by simp
    also have "\<dots> = (\<Sum>k<?n. a i k * (if k = j then 1 else 0))"
      by (rule sum.cong) (simp_all add: i2 j)
    also have "\<dots> = a i j" using sum_delta_mult2 [OF j, of "a i" 1] by simp
    finally show ?thesis by simp
  qed
  have g2: "\<forall>i<?n. \<forall>j<?n. (\<Sum>k<?n. ent A i k * ent Y k j) = (if i = j then 1 else 0)"
  proof (intro allI impI)
    fix i j assume i: "i < ?n" and j: "j < ?n"
    have "(\<Sum>k<?n. ent A i k * ent Y k j) = (\<Sum>k<?n. a i k * Rf ws k j)"
      by (rule sum.cong) (simp_all add: eY a_eq [OF i])
    with aR i j show "(\<Sum>k<?n. ent A i k * ent Y k j) = (if i = j then 1 else 0)" by simp
  qed
  from sq wfY g1 g2 show ?thesis by (simp add: Y)
qed

section \<open>\<^verbatim>\<open>_coherent_sum\<close>: auxiliary facts\<close>

lemma mode_vec_at_ok:
  assumes "k < dim0 mv" and "\<forall>d\<in>set idx. d < dim2 mv"
  shows "mode_vec_at mv k idx = Inr (mk_mat (dim1 mv) (length idx) (\<lambda>m c. at3 mv k m (idx ! c)))"
  using assms by (simp add: mode_vec_at_def list_all_iff np_T_mk_mat)

lemma complement_block_ok:
  assumes "p \<le> m"
  shows "complement_block m p = Inr (mk_mat m (m - p) (\<lambda>r c. if r = p + c then 1 else 0))"
proof -
  have "np_concatenate_axis1 (np_zeros (m - p) p) (np_identity (m - p)) =
      Inr (mk_mat (m - p) m (\<lambda>i j. if j = p + i then 1 else 0))"
    unfolding np_concatenate_axis1_def np_zeros_def np_identity_def nrows_mk_mat ncols_mk_mat
    using assms by (auto intro!: mk_mat_cong simp: ent_mk_mat)
  then show ?thesis
    using assms by (simp add: complement_block_def bind_err_def np_T_mk_mat)
qed

lemma concatenate_augmented:
  assumes "length idx \<le> m"
  shows "np_concatenate_axis1 (mk_mat m (length idx) (\<lambda>r c. at3 mv k r (idx ! c)))
           (mk_mat m (m - length idx) (\<lambda>r c. if r = length idx + c then 1 else 0)) =
         Inr (augmented_basis mv k idx m)"
  unfolding np_concatenate_axis1_def augmented_basis_def nrows_mk_mat ncols_mk_mat
  using assms by (auto intro!: mk_mat_cong simp: ent_mk_mat)

lemma focusing_transform_unfold:
  assumes "j < length beta"
    and "length (beta ! j) \<le> M s"
    and "freq_bins s ! j < dim0 (mode_vec s)"
    and "f0 < dim0 (mode_vec s)"
    and "\<forall>d\<in>set (beta ! j). d < dim2 (mode_vec s)"
    and "dim1 (mode_vec s) = M s"
  shows "\<exists>Aj A0 B.
       mode_vec_at (mode_vec s) (freq_bins s ! j) (beta ! j) = Inr Aj
     \<and> mode_vec_at (mode_vec s) f0 (beta ! j) = Inr A0
     \<and> complement_block (M s) (length (beta ! j)) = Inr B
     \<and> nrows Aj = M s \<and> ncols Aj = length (beta ! j)
     \<and> nrows A0 = M s \<and> ncols A0 = length (beta ! j)
     \<and> nrows B = M s \<and> ncols B = M s - length (beta ! j)
     \<and> (\<forall>m<M s. \<forall>c<length (beta ! j).
           ent Aj m c = at3 (mode_vec s) (freq_bins s ! j) m (beta ! j ! c)
         \<and> ent A0 m c = at3 (mode_vec s) f0 m (beta ! j ! c))
     \<and> (\<forall>m<M s. \<forall>c<M s - length (beta ! j).
           ent B m c = (if m = length (beta ! j) + c then 1 else 0))
     \<and> np_concatenate_axis1 Aj B =
         Inr (augmented_basis (mode_vec s) (freq_bins s ! j) (beta ! j) (M s))
     \<and> np_concatenate_axis1 A0 B = Inr (augmented_basis (mode_vec s) f0 (beta ! j) (M s))
     \<and> focusing_transform s f0 beta j =
         (case np_linalg_inv (augmented_basis (mode_vec s) (freq_bins s ! j) (beta ! j) (M s)) of
            Inl e \<Rightarrow> Inl e
          | Inr V \<Rightarrow> np_dot (augmented_basis (mode_vec s) f0 (beta ! j) (M s)) V)"
proof -
  let ?mv = "mode_vec s" and ?k = "freq_bins s ! j" and ?idx = "beta ! j" and ?m = "M s"
  let ?p = "length ?idx"
  let ?Aj = "mk_mat ?m ?p (\<lambda>m c. at3 ?mv ?k m (?idx ! c))"
  let ?A0 = "mk_mat ?m ?p (\<lambda>m c. at3 ?mv f0 m (?idx ! c))"
  let ?B = "mk_mat ?m (?m - ?p) (\<lambda>r c. if r = ?p + c then 1 else (0::complex))"
  have aj: "mode_vec_at ?mv ?k ?idx = Inr ?Aj"
    using mode_vec_at_ok [OF assms(3,5)] assms(6) by simp
  have a0: "mode_vec_at ?mv f0 ?idx = Inr ?A0"
    using mode_vec_at_ok [OF assms(4,5)] assms(6) by simp
  have b: "complement_block ?m ?p = Inr ?B"
    by (rule complement_block_ok [OF assms(2)])
  have cj: "np_concatenate_axis1 ?Aj ?B = Inr (augmented_basis ?mv ?k ?idx ?m)"
    by (rule concatenate_augmented [OF assms(2)])
  have c0: "np_concatenate_axis1 ?A0 ?B = Inr (augmented_basis ?mv f0 ?idx ?m)"
    by (rule concatenate_augmented [OF assms(2)])
  have ft: "focusing_transform s f0 beta j =
         (case np_linalg_inv (augmented_basis ?mv ?k ?idx ?m) of
            Inl e \<Rightarrow> Inl e
          | Inr V \<Rightarrow> np_dot (augmented_basis ?mv f0 ?idx ?m) V)"
    using assms(1) by (simp add: focusing_transform_def Let_def aj a0 b cj c0 bind_err_def)
  have ents: "\<forall>m<?m. \<forall>c<?p. ent ?Aj m c = at3 ?mv ?k m (?idx ! c)
         \<and> ent ?A0 m c = at3 ?mv f0 m (?idx ! c)"
    by (simp add: ent_mk_mat)
  have entb: "\<forall>m<?m. \<forall>c<?m - ?p. ent ?B m c = (if m = ?p + c then 1 else 0)"
    by (simp add: ent_mk_mat)
  show ?thesis
    apply (rule exI [of _ ?Aj], rule exI [of _ ?A0], rule exI [of _ ?B])
    using aj a0 b cj c0 ft ents entb
    by (simp only: nrows_mk_mat ncols_mk_mat simp_thms)
qed

lemma focused_covariance_Inr:
  assumes "focused_covariance C_hat j T = Inr F"
  shows "j < length C_hat \<and> ncols T = nrows (C_hat ! j) \<and> ncols (C_hat ! j) = ncols T
       \<and> F = mk_mat (nrows T) (nrows T) (sandwich T (C_hat ! j))"
proof -
  from assms have j: "j < length C_hat"
    by (auto simp: focused_covariance_def split: if_splits)
  with assms obtain TC where tc: "np_dot T (C_hat ! j) = Inr TC"
    and f: "np_dot TC (np_T (np_conjugate T)) = Inr F"
    by (cases "np_dot T (C_hat ! j)") (simp_all add: focused_covariance_def bind_err_def)
  from np_dot_Inr [OF tc] have s1: "ncols T = nrows (C_hat ! j)"
    and TC: "TC = mk_mat (nrows T) (ncols (C_hat ! j))
                    (\<lambda>i j'. \<Sum>k<ncols T. ent T i k * ent (C_hat ! j) k j')"
    by simp_all
  have th: "np_T (np_conjugate T) = mk_mat (ncols T) (nrows T) (\<lambda>i j. cnj (ent T j i))"
    by (simp add: np_conjugate_def np_T_mk_mat)
  from np_dot_Inr [OF f] have s2: "ncols (C_hat ! j) = ncols T"
    and F: "F = mk_mat (nrows TC) (ncols (np_T (np_conjugate T)))
                  (\<lambda>i j. \<Sum>k<ncols TC. ent TC i k * ent (np_T (np_conjugate T)) k j)"
    by (simp_all add: TC th nrows_mk_mat ncols_mk_mat)
  have "F = mk_mat (nrows T) (nrows T) (sandwich T (C_hat ! j))"
    unfolding F TC th nrows_mk_mat ncols_mk_mat sandwich_def s2
    by (rule mk_mat_cong) (simp add: ent_mk_mat)
  with j s1 s2 show ?thesis by simp
qed

lemma coherent_sum_loop_Inr:
  assumes "coherent_sum_loop s C_hat f0 beta js R0 = Inr R" and "wf_mat R0"
  shows "(\<forall>j\<in>set js. \<exists>T. focusing_transform s f0 beta j = Inr T \<and> j < length C_hat
            \<and> nrows T = nrows R0 \<and> nrows T = ncols R0
            \<and> ncols T = nrows (C_hat ! j) \<and> ncols (C_hat ! j) = ncols T)
       \<and> R = mk_mat (nrows R0) (ncols R0)
               (\<lambda>a b. ent R0 a b +
                  (\<Sum>j\<leftarrow>js. sandwich (projr (focusing_transform s f0 beta j)) (C_hat ! j) a b))"
  using assms
proof (induction js arbitrary: R0)
  case Nil
  then show ?case by (simp add: mk_mat_ent)
next
  case (Cons j js)
  from Cons.prems(1) obtain T where t: "focusing_transform s f0 beta j = Inr T"
    by (cases "focusing_transform s f0 beta j") (simp_all add: bind_err_def)
  from Cons.prems(1) t obtain F where f: "focused_covariance C_hat j T = Inr F"
    by (cases "focused_covariance C_hat j T") (simp_all add: bind_err_def)
  from Cons.prems(1) t f obtain R1 where a: "np_add R0 F = Inr R1"
    by (cases "np_add R0 F") (simp_all add: bind_err_def)
  from Cons.prems(1) t f a have r: "coherent_sum_loop s C_hat f0 beta js R1 = Inr R"
    by (simp add: bind_err_def)
  note fc = focused_covariance_Inr [OF f]
  from fc have F: "F = mk_mat (nrows T) (nrows T) (sandwich T (C_hat ! j))" by simp
  from np_add_Inr [OF a] have sh: "nrows R0 = nrows T" "ncols R0 = nrows T"
    and R1: "R1 = mk_mat (nrows R0) (ncols R0) (\<lambda>i j. ent R0 i j + ent F i j)"
    by (simp_all add: F nrows_mk_mat ncols_mk_mat)
  have wf1: "wf_mat R1" by (simp add: R1 wf_mk_mat)
  have n1: "nrows R1 = nrows R0" "ncols R1 = ncols R0"
    by (simp_all add: R1 nrows_mk_mat ncols_mk_mat)
  note ih = Cons.IH [OF r wf1, unfolded n1]
  have pj: "projr (focusing_transform s f0 beta j) = T" by (simp add: t)
  have "R = mk_mat (nrows R0) (ncols R0)
               (\<lambda>a b. ent R0 a b +
                  (\<Sum>j\<leftarrow>j # js. sandwich (projr (focusing_transform s f0 beta j)) (C_hat ! j) a b))"
  proof -
    from ih have "R = mk_mat (nrows R0) (ncols R0)
               (\<lambda>a b. ent R1 a b +
                  (\<Sum>j\<leftarrow>js. sandwich (projr (focusing_transform s f0 beta j)) (C_hat ! j) a b))"
      by simp
    also have "\<dots> = mk_mat (nrows R0) (ncols R0)
               (\<lambda>a b. ent R0 a b +
                  (\<Sum>j\<leftarrow>j # js. sandwich (projr (focusing_transform s f0 beta j)) (C_hat ! j) a b))"
      by (rule mk_mat_cong) (simp add: R1 F ent_mk_mat sh pj)
    finally show ?thesis .
  qed
  moreover have "\<exists>T. focusing_transform s f0 beta j = Inr T \<and> j < length C_hat
            \<and> nrows T = nrows R0 \<and> nrows T = ncols R0
            \<and> ncols T = nrows (C_hat ! j) \<and> ncols (C_hat ! j) = ncols T"
    using t fc sh by simp
  moreover from ih have "\<forall>j\<in>set js. \<exists>T. focusing_transform s f0 beta j = Inr T \<and> j < length C_hat
            \<and> nrows T = nrows R0 \<and> nrows T = ncols R0
            \<and> ncols T = nrows (C_hat ! j) \<and> ncols (C_hat ! j) = ncols T"
    by simp
  ultimately show ?case by simp
qed

lemma coherent_sum_Inr:
  assumes "coherent_sum s C_hat f0 beta = Inr R"
  shows "(\<forall>j<length (freq_bins s). \<exists>T. focusing_transform s f0 beta j = Inr T \<and> j < length C_hat
            \<and> nrows T = M s \<and> ncols T = nrows (C_hat ! j) \<and> ncols (C_hat ! j) = ncols T)
       \<and> R = mk_mat (M s) (M s)
               (\<lambda>a b. \<Sum>j<length (freq_bins s).
                   sandwich (projr (focusing_transform s f0 beta j)) (C_hat ! j) a b)"
proof -
  have wf: "wf_mat (np_zeros (M s) (M s))" by (simp add: np_zeros_def wf_mk_mat)
  note l = coherent_sum_loop_Inr [OF assms [unfolded coherent_sum_def] wf]
  have z: "nrows (np_zeros (M s) (M s)) = M s" "ncols (np_zeros (M s) (M s)) = M s"
    by (simp_all add: np_zeros_def nrows_mk_mat ncols_mk_mat)
  from l have a: "\<forall>j<length (freq_bins s). \<exists>T. focusing_transform s f0 beta j = Inr T
            \<and> j < length C_hat
            \<and> nrows T = M s \<and> ncols T = nrows (C_hat ! j) \<and> ncols (C_hat ! j) = ncols T"
    by (simp add: z)
  from l have "R = mk_mat (M s) (M s)
               (\<lambda>a b. ent (np_zeros (M s) (M s)) a b +
                  (\<Sum>j\<leftarrow>[0..<length (freq_bins s)].
                     sandwich (projr (focusing_transform s f0 beta j)) (C_hat ! j) a b))"
    by (simp add: z)
  also have "\<dots> = mk_mat (M s) (M s)
               (\<lambda>a b. \<Sum>j<length (freq_bins s).
                   sandwich (projr (focusing_transform s f0 beta j)) (C_hat ! j) a b)"
    by (rule mk_mat_cong) (simp add: np_zeros_def ent_mk_mat sum_list_upt)
  finally show ?thesis using a by simp
qed

lemma process_invalid:
  assumes "process ops s X = Inr (s', l)"
  shows "(\<forall>j\<in>set (the_invalid l). j < length (freq_bins s))
       \<and> np_delete (freq_bins s) (the_invalid l) = Inr (the_desired_freq l)"
proof -
  let ?C = "compute_correlation_matrices ops X"
  let ?s0 = "s\<lparr>calls := calls s @ [CallCorrelationMatrices]\<rparr>"
  from assms obtain s1 beta invalid where
    sd: "seeding ops ?C [0..<num_freq s] (?s0, [], []) = Inr (s1, beta, invalid)"
    by (cases "seeding ops ?C [0..<num_freq s] (?s0, [], [])")
       (auto simp: process_def Let_def)
  from assms sd obtain df where df: "np_delete (freq_bins s1) invalid = Inr df"
    by (cases "np_delete (freq_bins s1) invalid") (simp_all add: process_def Let_def)
  from assms sd df obtain f0 where rf: "reference_frequency s1 X = Inr f0"
    by (cases "reference_frequency s1 X") (simp_all add: process_def Let_def)
  from assms sd df rf obtain s2 beta' i where
    ml: "main_loop ops ?C f0 s1 beta 0 = Inr (s2, beta', i)"
    by (cases "main_loop ops ?C f0 s1 beta 0") (auto simp: process_def Let_def)
  from assms sd df rf ml have
    l: "l = \<lparr>the_C_hat = ?C, the_invalid = invalid, the_desired_freq = df, the_f0 = f0,
             the_beta = beta', the_i = i\<rparr>"
    by (simp_all add: process_def Let_def)
  from seeding_frame [OF sd] have fb: "freq_bins s1 = freq_bins s" by simp
  from df fb have d: "np_delete (freq_bins s) invalid = Inr df" by simp
  then have "\<forall>j\<in>set invalid. j < length (freq_bins s)"
    by (auto simp: np_delete_def list_all_iff split: if_splits)
  with d l show ?thesis by simp
qed

lemma nrows_augmented: "nrows (augmented_basis mv k idx m) = m"
  and ncols_augmented: "ncols (augmented_basis mv k idx m) = m"
  and wf_augmented: "wf_mat (augmented_basis mv k idx m)"
  by (simp_all add: augmented_basis_def nrows_mk_mat ncols_mk_mat wf_mk_mat)

lemma dot_inverse_left:
  assumes inv: "np_linalg_inv X = Inr V" and wf: "wf_mat X" and n: "nrows X = n"
    and x0: "nrows X0 = n" "ncols X0 = n"
    and t: "np_dot X0 V = Inr T"
    and a: "a < n" and b: "b < n"
  shows "(\<Sum>k<n. ent T a k * ent X k b) = ent X0 a b"
proof -
  note sound = np_linalg_inv_sound [OF wf inv, unfolded n]
  from sound have sV: "ncols V = n" by blast
  from sound have
    g1: "\<forall>i<n. \<forall>j<n. (\<Sum>k<n. ent V i k * ent X k j) = (if i = j then 1 else 0)"
    by blast
  from np_dot_Inr [OF t] x0 sV have
    T: "T = mk_mat n n (\<lambda>i j. \<Sum>l<n. ent X0 i l * ent V l j)" by simp
  have "(\<Sum>k<n. ent T a k * ent X k b) = (\<Sum>k<n. (\<Sum>l<n. ent X0 a l * ent V l k) * ent X k b)"
    by (rule sum.cong) (simp_all add: T ent_mk_mat a)
  also have "\<dots> = (\<Sum>k<n. \<Sum>l<n. ent X0 a l * (ent V l k * ent X k b))"
    by (simp add: sum_distrib_right mult.assoc)
  also have "\<dots> = (\<Sum>l<n. \<Sum>k<n. ent X0 a l * (ent V l k * ent X k b))"
    by (rule sum.swap)
  also have "\<dots> = (\<Sum>l<n. ent X0 a l * (\<Sum>k<n. ent V l k * ent X k b))"
    by (simp add: sum_distrib_left)
  also have "\<dots> = (\<Sum>l<n. ent X0 a l * (if l = b then 1 else 0))"
    by (rule sum.cong) (simp_all add: g1 b)
  also have "\<dots> = ent X0 a b"
    using sum_delta_mult2 [OF b, of "ent X0 a" 1] by simp
  finally show ?thesis .
qed

lemma complement_block_Inr:
  assumes "complement_block m p = Inr B"
  shows "p \<le> m \<and> B = mk_mat m (m - p) (\<lambda>r c. if r = p + c then 1 else 0)"
proof -
  from assms have p: "p \<le> m"
    by (auto simp: complement_block_def split: if_splits)
  with assms complement_block_ok [OF p] show ?thesis by simp
qed

lemma np_concatenate_axis1_Inr:
  assumes "np_concatenate_axis1 A B = Inr D"
  shows "nrows A = nrows B \<and> nrows D = nrows A \<and> ncols D = ncols A + ncols B \<and> wf_mat D"
  using assms
  by (auto simp: np_concatenate_axis1_def nrows_mk_mat ncols_mk_mat wf_mk_mat split: if_splits)

lemma mode_vec_at_Inr:
  assumes "mode_vec_at mv k idx = Inr A"
  shows "k < dim0 mv \<and> (\<forall>d\<in>set idx. d < dim2 mv)
       \<and> A = mk_mat (dim1 mv) (length idx) (\<lambda>m c. at3 mv k m (idx ! c))"
proof -
  from assms have a: "k < dim0 mv" "\<forall>d\<in>set idx. d < dim2 mv"
    by (auto simp: mode_vec_at_def list_all_iff split: if_splits)
  with assms mode_vec_at_ok [OF a] show ?thesis by simp
qed

lemma focusing_transform_Inr:
  assumes "focusing_transform s f0 beta j = Inr T"
  shows "\<exists>Aj A0 B XA XB V.
      j < length beta
    \<and> mode_vec_at (mode_vec s) (freq_bins s ! j) (beta ! j) = Inr Aj
    \<and> mode_vec_at (mode_vec s) f0 (beta ! j) = Inr A0
    \<and> complement_block (M s) (length (beta ! j)) = Inr B
    \<and> np_concatenate_axis1 A0 B = Inr XA
    \<and> np_concatenate_axis1 Aj B = Inr XB
    \<and> np_linalg_inv XB = Inr V
    \<and> np_dot XA V = Inr T"
proof -
  let ?k = "freq_bins s ! j"
  from assms have j: "j < length beta"
    by (auto simp: focusing_transform_def Let_def split: if_splits)
  from assms j obtain Aj where aj: "mode_vec_at (mode_vec s) ?k (beta ! j) = Inr Aj"
    by (cases "mode_vec_at (mode_vec s) ?k (beta ! j)")
       (simp_all add: focusing_transform_def Let_def bind_err_def)
  from assms j aj obtain A0 where a0: "mode_vec_at (mode_vec s) f0 (beta ! j) = Inr A0"
    by (cases "mode_vec_at (mode_vec s) f0 (beta ! j)")
       (simp_all add: focusing_transform_def Let_def bind_err_def)
  from assms j aj a0 obtain B where b: "complement_block (M s) (length (beta ! j)) = Inr B"
    by (cases "complement_block (M s) (length (beta ! j))")
       (simp_all add: focusing_transform_def Let_def bind_err_def)
  from assms j aj a0 b obtain XA where xa: "np_concatenate_axis1 A0 B = Inr XA"
    by (cases "np_concatenate_axis1 A0 B")
       (simp_all add: focusing_transform_def Let_def bind_err_def)
  from assms j aj a0 b xa obtain XB where xb: "np_concatenate_axis1 Aj B = Inr XB"
    by (cases "np_concatenate_axis1 Aj B")
       (simp_all add: focusing_transform_def Let_def bind_err_def)
  from assms j aj a0 b xa xb obtain V where v: "np_linalg_inv XB = Inr V"
    by (cases "np_linalg_inv XB")
       (simp_all add: focusing_transform_def Let_def bind_err_def)
  from assms j aj a0 b xa xb v have d: "np_dot XA V = Inr T"
    by (simp add: focusing_transform_def Let_def bind_err_def)
  from j aj a0 b xa xb v d show ?thesis by blast
qed

lemma focusing_identity:
  assumes t: "focusing_transform s f0 beta j = Inr T"
    and same: "\<forall>m<dim1 (mode_vec s). \<forall>d\<in>set (beta ! j).
                 at3 (mode_vec s) (freq_bins s ! j) m d = at3 (mode_vec s) f0 m d"
  shows "T = np_identity (M s)"
proof -
  from focusing_transform_Inr [OF t] obtain Aj A0 B XA XB V where
    aj: "mode_vec_at (mode_vec s) (freq_bins s ! j) (beta ! j) = Inr Aj" and
    a0: "mode_vec_at (mode_vec s) f0 (beta ! j) = Inr A0" and
    b: "complement_block (M s) (length (beta ! j)) = Inr B" and
    xa: "np_concatenate_axis1 A0 B = Inr XA" and
    xb: "np_concatenate_axis1 Aj B = Inr XB" and
    v: "np_linalg_inv XB = Inr V" and
    d: "np_dot XA V = Inr T"
    by blast
  have "Aj = A0"
  proof -
    from mode_vec_at_Inr [OF aj] have
      "Aj = mk_mat (dim1 (mode_vec s)) (length (beta ! j))
              (\<lambda>m c. at3 (mode_vec s) (freq_bins s ! j) m (beta ! j ! c))" by simp
    also have "\<dots> = mk_mat (dim1 (mode_vec s)) (length (beta ! j))
              (\<lambda>m c. at3 (mode_vec s) f0 m (beta ! j ! c))"
      by (rule mk_mat_cong) (simp add: same)
    also from mode_vec_at_Inr [OF a0] have "\<dots> = A0" by simp
    finally show ?thesis .
  qed
  with xa xb have x: "XA = XB" by simp
  from complement_block_Inr [OF b] have nb: "nrows B = M s" by (simp add: nrows_mk_mat)
  from np_concatenate_axis1_Inr [OF xb] nb have n: "nrows XB = M s" and wf: "wf_mat XB"
    by simp_all
  note sound = np_linalg_inv_sound [OF wf v, unfolded n]
  from sound have c: "ncols XB = M s" and cv: "ncols V = M s" by simp_all
  from sound have g2: "\<forall>i<M s. \<forall>j<M s. (\<Sum>k<M s. ent XB i k * ent V k j) = (if i = j then 1 else 0)"
    by blast
  from np_dot_Inr [OF d] have "T = mk_mat (M s) (M s) (\<lambda>i j. \<Sum>k<M s. ent XB i k * ent V k j)"
    by (simp add: x n c cv)
  also have "\<dots> = mk_mat (M s) (M s) (\<lambda>i j. if i = j then 1 else 0)"
    by (rule mk_mat_cong) (simp add: g2)
  finally show ?thesis by (simp add: np_identity_def)
qed

lemma sandwich_identity:
  assumes "a < m" and "b < m"
  shows "sandwich (np_identity m) C a b = ent C a b"
proof -
  have e: "ent (np_identity m) i k = (if i = k then 1 else 0)" if "i < m" "k < m" for i k
    using that by (simp add: np_identity_def ent_mk_mat)
  have d: "(\<Sum>k<m. (if a = k then 1 else 0) * g k) = g a" for g :: "nat \<Rightarrow> complex"
  proof -
    have "(\<Sum>k<m. (if a = k then 1 else 0) * g k) = (\<Sum>k<m. (if k = a then 1 else 0) * g k)"
      by (rule sum.cong) auto
    with sum_delta_mult [OF assms(1), of 1 g] show ?thesis by simp
  qed
  have "sandwich (np_identity m) C a b
      = (\<Sum>l<m. (\<Sum>k<m. (if a = k then 1 else 0) * ent C k l) * (if l = b then 1 else 0))"
    unfolding sandwich_def np_identity_def ncols_mk_mat
    by (rule sum.cong, simp, rule arg_cong2 [where f = "(*)"], rule sum.cong)
       (auto simp: ent_mk_mat assms)
  also have "\<dots> = (\<Sum>l<m. ent C a l * (if l = b then 1 else 0))"
    by (simp add: d)
  also have "\<dots> = ent C a b"
    using sum_delta_mult2 [OF assms(2), of "ent C a" 1] by simp
  finally show ?thesis .
qed









section \<open>Claims about \<^verbatim>\<open>_coherent_sum\<close>\<close>

text \<open>
  Claim C3.  A call of \<^verbatim>\<open>_coherent_sum\<close> that returns has computed a focusing transform
  \<open>T\<^sub>j\<close> for every position \<open>j\<close> of \<^verbatim>\<open>freq_bins\<close>, and returns the \<open>M \<times> M\<close> matrix whose
  entries are the sums over all these positions of the entries of \<open>T\<^sub>j \<cdot> C_hat[j] \<cdot> T\<^sub>j\<^sup>H\<close>.
  In a call of \<^verbatim>\<open>_process\<close> that returns, the correlation matrices are estimated once,
  first, and never again; every call of \<^verbatim>\<open>_coherent_sum\<close> is made with that estimate and
  returns, so it sums over every position of \<^verbatim>\<open>freq_bins\<close>, which the call leaves
  unchanged: the positions recorded in \<^verbatim>\<open>invalid\<close> are positions of \<^verbatim>\<open>freq_bins\<close> and
  are summed like the others, and \<^verbatim>\<open>desired_freq\<close>, which is \<^verbatim>\<open>freq_bins\<close> without them,
  is not an argument of the sum.
\<close>
theorem coherent_sum_all_bins:
  "(\<forall>R. coherent_sum s C_hat f0 beta = Inr R \<longrightarrow>
      (\<exists>T. (\<forall>j<length (freq_bins s).
               focusing_transform s f0 beta j = Inr (T j) \<and> j < length C_hat
             \<and> nrows (T j) = M s \<and> ncols (T j) = nrows (C_hat ! j)
             \<and> ncols (C_hat ! j) = ncols (T j))
          \<and> R = mk_mat (M s) (M s)
                  (\<lambda>a b. \<Sum>j<length (freq_bins s). sandwich (T j) (C_hat ! j) a b)))
   \<and> (\<forall>s' l. process ops s X = Inr (s', l) \<longrightarrow>
        the_C_hat l = compute_correlation_matrices ops X
      \<and> freq_bins s' = freq_bins s
      \<and> (\<forall>j\<in>set (the_invalid l). j < length (freq_bins s))
      \<and> np_delete (freq_bins s) (the_invalid l) = Inr (the_desired_freq l)
      \<and> (\<exists>new. calls s' = calls s @ CallCorrelationMatrices # new
            \<and> CallCorrelationMatrices \<notin> set new
            \<and> (\<forall>C f b. CallCoherentSum C f b \<in> set new \<longrightarrow>
                 C = the_C_hat l \<and> (\<exists>R. coherent_sum s C f b = Inr R))))"
proof (intro conjI allI impI)
  fix R
  assume r: "coherent_sum s C_hat f0 beta = Inr R"
  let ?T = "\<lambda>j. projr (focusing_transform s f0 beta j)"
  from coherent_sum_Inr [OF r] have
    a: "\<forall>j<length (freq_bins s). \<exists>T. focusing_transform s f0 beta j = Inr T \<and> j < length C_hat
            \<and> nrows T = M s \<and> ncols T = nrows (C_hat ! j) \<and> ncols (C_hat ! j) = ncols T"
    and b: "R = mk_mat (M s) (M s)
               (\<lambda>a b. \<Sum>j<length (freq_bins s). sandwich (?T j) (C_hat ! j) a b)"
    by blast+
  from a have "\<forall>j<length (freq_bins s).
               focusing_transform s f0 beta j = Inr (?T j) \<and> j < length C_hat
             \<and> nrows (?T j) = M s \<and> ncols (?T j) = nrows (C_hat ! j)
             \<and> ncols (C_hat ! j) = ncols (?T j)"
    by auto
  with b show "\<exists>T. (\<forall>j<length (freq_bins s).
               focusing_transform s f0 beta j = Inr (T j) \<and> j < length C_hat
             \<and> nrows (T j) = M s \<and> ncols (T j) = nrows (C_hat ! j)
             \<and> ncols (C_hat ! j) = ncols (T j))
          \<and> R = mk_mat (M s) (M s)
                  (\<lambda>a b. \<Sum>j<length (freq_bins s). sandwich (T j) (C_hat ! j) a b)"
    by (intro exI [of _ ?T] conjI)
next
  fix s' l
  assume p: "process ops s X = Inr (s', l)"
  note pc = process_calls [OF p]
  from pc show c: "the_C_hat l = compute_correlation_matrices ops X" by simp
  from pc show "freq_bins s' = freq_bins s" by simp
  from process_invalid [OF p]
  show "np_delete (freq_bins s) (the_invalid l) = Inr (the_desired_freq l)" by simp
  from process_invalid [OF p]
  show "\<forall>j\<in>set (the_invalid l). j < length (freq_bins s)" by simp
  from pc obtain new where
    n: "calls s' = calls s @ CallCorrelationMatrices # new" and
    ok: "calls_ok s (compute_correlation_matrices ops X) (the_f0 l) new"
    by blast
  from ok c have "CallCorrelationMatrices \<notin> set new
            \<and> (\<forall>C f b. CallCoherentSum C f b \<in> set new \<longrightarrow>
                 C = the_C_hat l \<and> (\<exists>R. coherent_sum s C f b = Inr R))"
    by (simp add: calls_ok_def)
  with n show "\<exists>new. calls s' = calls s @ CallCorrelationMatrices # new
            \<and> CallCorrelationMatrices \<notin> set new
            \<and> (\<forall>C f b. CallCoherentSum C f b \<in> set new \<longrightarrow>
                 C = the_C_hat l \<and> (\<exists>R. coherent_sum s C f b = Inr R))"
    by blast
qed

theorem coherent_sum_all_bins_witness:
  "(\<exists>R T. coherent_sum ex_cssm ex_C_hat 0 [[], [2]] = Inr R
      \<and> focusing_transform ex_cssm 0 [[], [2]] 0 = Inr (T 0)
      \<and> focusing_transform ex_cssm 0 [[], [2]] (Suc 0) = Inr (T (Suc 0))
      \<and> R = mk_mat 2 2 (\<lambda>a b. \<Sum>j<2. sandwich (T j) (ex_C_hat ! j) a b)
      \<and> ent R 0 0 = 3)
   \<and> (\<exists>s' l. process ex_ops ex_cssm ex_X = Inr (s', l)
      \<and> the_invalid l = [0] \<and> the_desired_freq l = [Suc 0]
      \<and> freq_bins s' = [0, Suc 0] \<and> the_C_hat l = ex_C_hat
      \<and> np_delete [0, Suc 0] [0] = Inr [Suc 0])"
proof -
  note inst = coherent_sum_all_bins [of ex_cssm ex_C_hat 0 "[[], [2]]" ex_ops ex_X]
  have fb: "freq_bins ex_cssm = [0, Suc 0]" "length (freq_bins ex_cssm) = 2" "M ex_cssm = 2"
    "compute_correlation_matrices ex_ops ex_X = ex_C_hat"
    by (simp_all add: ex_cssm_def ex_ops_def)
  have "\<exists>R. coherent_sum ex_cssm ex_C_hat 0 [[], [2]] = Inr R \<and> ent R 0 0 = 3"
    by (simp add: cs_defs ex_defs np_defs inv_defs ev)
  then obtain R where r: "coherent_sum ex_cssm ex_C_hat 0 [[], [2]] = Inr R"
    and e: "ent R 0 0 = 3" by blast
  from inst r obtain T where
    t: "\<forall>j<length (freq_bins ex_cssm).
               focusing_transform ex_cssm 0 [[], [2]] j = Inr (T j) \<and> j < length ex_C_hat
             \<and> nrows (T j) = M ex_cssm \<and> ncols (T j) = nrows (ex_C_hat ! j)
             \<and> ncols (ex_C_hat ! j) = ncols (T j)"
    and R: "R = mk_mat (M ex_cssm) (M ex_cssm)
                  (\<lambda>a b. \<Sum>j<length (freq_bins ex_cssm). sandwich (T j) (ex_C_hat ! j) a b)"
    by blast
  from t have t0: "focusing_transform ex_cssm 0 [[], [2]] 0 = Inr (T 0)"
    and t1: "focusing_transform ex_cssm 0 [[], [2]] (Suc 0) = Inr (T (Suc 0))"
    by (simp_all add: fb(2))
  from R have R': "R = mk_mat 2 2 (\<lambda>a b. \<Sum>j<2. sandwich (T j) (ex_C_hat ! j) a b)"
    by (simp only: fb(2,3))
  from r t0 t1 R' e have first: "\<exists>R T. coherent_sum ex_cssm ex_C_hat 0 [[], [2]] = Inr R
      \<and> focusing_transform ex_cssm 0 [[], [2]] 0 = Inr (T 0)
      \<and> focusing_transform ex_cssm 0 [[], [2]] (Suc 0) = Inr (T (Suc 0))
      \<and> R = mk_mat 2 2 (\<lambda>a b. \<Sum>j<2. sandwich (T j) (ex_C_hat ! j) a b)
      \<and> ent R 0 0 = 3"
    by blast
  have "\<exists>s' l. process ex_ops ex_cssm ex_X = Inr (s', l) \<and> the_invalid l = [0]"
    by (simp add: pr_defs cs_defs ex_defs np_defs inv_defs ev main_loop.simps)
  then obtain s' l where p: "process ex_ops ex_cssm ex_X = Inr (s', l)"
    and i: "the_invalid l = [0]" by blast
  from inst p have "the_C_hat l = compute_correlation_matrices ex_ops ex_X
      \<and> freq_bins s' = freq_bins ex_cssm
      \<and> np_delete (freq_bins ex_cssm) (the_invalid l) = Inr (the_desired_freq l)"
    by blast
  then have c: "the_C_hat l = ex_C_hat" and f: "freq_bins s' = [0, Suc 0]"
    and d: "np_delete [0, Suc 0] [0] = Inr (the_desired_freq l)"
    by (simp_all only: fb i)
  have d': "np_delete [0, Suc 0] [0] = Inr [Suc 0]"
    by (simp add: np_delete_def ev)
  with d have "the_desired_freq l = [Suc 0]" by simp
  with p i c f d' have second: "\<exists>s' l. process ex_ops ex_cssm ex_X = Inr (s', l)
      \<and> the_invalid l = [0] \<and> the_desired_freq l = [Suc 0]
      \<and> freq_bins s' = [0, Suc 0] \<and> the_C_hat l = ex_C_hat
      \<and> np_delete [0, Suc 0] [0] = Inr [Suc 0]"
    by blast
  from first second show ?thesis by blast
qed

text \<open>
  Claim C4.  For a position \<open>j\<close> whose direction list \<open>beta[j]\<close> has \<open>p \<le> M\<close> entries that
  index the steering dictionary (whose bins include \<open>freq_bins[j]\<close> and \<open>f0\<close> and which has
  \<open>M\<close> sensors), lines 92--96 build \<open>Aj\<close> and \<open>A0\<close>, the \<open>M \<times> p\<close> matrices of the steering
  vectors of the bin \<open>freq_bins[j]\<close> and of the reference bin \<open>f0\<close> for the same directions
  \<open>beta[j]\<close>, and one block \<open>B\<close>, the \<open>M \<times> (M - p)\<close> matrix whose columns are the last
  \<open>M - p\<close> standard basis vectors; \<open>[Aj | B]\<close> and \<open>[A0 | B]\<close> are the augmented bases of the
  specification, and the transform is \<open>[A0 | B]\<close> times the inverse of \<open>[Aj | B]\<close>, an error
  if the inversion raises.  A transform \<open>T\<close> that is returned is \<open>M \<times> M\<close> and satisfies
  \<open>T \<cdot> [Aj | B] = [A0 | B]\<close>.
\<close>
theorem focusing_transform_augmented:
  assumes "j < length beta"
    and "length (beta ! j) \<le> M s"
    and "freq_bins s ! j < dim0 (mode_vec s)"
    and "f0 < dim0 (mode_vec s)"
    and "\<forall>d\<in>set (beta ! j). d < dim2 (mode_vec s)"
    and "dim1 (mode_vec s) = M s"
  shows "\<exists>Aj A0 B.
       mode_vec_at (mode_vec s) (freq_bins s ! j) (beta ! j) = Inr Aj
     \<and> mode_vec_at (mode_vec s) f0 (beta ! j) = Inr A0
     \<and> complement_block (M s) (length (beta ! j)) = Inr B
     \<and> nrows Aj = M s \<and> ncols Aj = length (beta ! j)
     \<and> nrows A0 = M s \<and> ncols A0 = length (beta ! j)
     \<and> nrows B = M s \<and> ncols B = M s - length (beta ! j)
     \<and> (\<forall>m<M s. \<forall>c<length (beta ! j).
           ent Aj m c = at3 (mode_vec s) (freq_bins s ! j) m (beta ! j ! c)
         \<and> ent A0 m c = at3 (mode_vec s) f0 m (beta ! j ! c))
     \<and> (\<forall>m<M s. \<forall>c<M s - length (beta ! j).
           ent B m c = (if m = length (beta ! j) + c then 1 else 0))
     \<and> np_concatenate_axis1 Aj B =
         Inr (augmented_basis (mode_vec s) (freq_bins s ! j) (beta ! j) (M s))
     \<and> np_concatenate_axis1 A0 B = Inr (augmented_basis (mode_vec s) f0 (beta ! j) (M s))
     \<and> focusing_transform s f0 beta j =
         (case np_linalg_inv (augmented_basis (mode_vec s) (freq_bins s ! j) (beta ! j) (M s)) of
            Inl e \<Rightarrow> Inl e
          | Inr V \<Rightarrow> np_dot (augmented_basis (mode_vec s) f0 (beta ! j) (M s)) V)
     \<and> (\<forall>T. focusing_transform s f0 beta j = Inr T \<longrightarrow>
           nrows T = M s \<and> ncols T = M s
         \<and> (\<forall>a<M s. \<forall>b<M s.
               (\<Sum>k<M s. ent T a k *
                   ent (augmented_basis (mode_vec s) (freq_bins s ! j) (beta ! j) (M s)) k b) =
               ent (augmented_basis (mode_vec s) f0 (beta ! j) (M s)) a b))"
proof -
  let ?Xj = "augmented_basis (mode_vec s) (freq_bins s ! j) (beta ! j) (M s)"
  let ?Xr = "augmented_basis (mode_vec s) f0 (beta ! j) (M s)"
  from focusing_transform_unfold [OF assms] obtain Aj A0 B where
    u: "mode_vec_at (mode_vec s) (freq_bins s ! j) (beta ! j) = Inr Aj
     \<and> mode_vec_at (mode_vec s) f0 (beta ! j) = Inr A0
     \<and> complement_block (M s) (length (beta ! j)) = Inr B
     \<and> nrows Aj = M s \<and> ncols Aj = length (beta ! j)
     \<and> nrows A0 = M s \<and> ncols A0 = length (beta ! j)
     \<and> nrows B = M s \<and> ncols B = M s - length (beta ! j)
     \<and> (\<forall>m<M s. \<forall>c<length (beta ! j).
           ent Aj m c = at3 (mode_vec s) (freq_bins s ! j) m (beta ! j ! c)
         \<and> ent A0 m c = at3 (mode_vec s) f0 m (beta ! j ! c))
     \<and> (\<forall>m<M s. \<forall>c<M s - length (beta ! j).
           ent B m c = (if m = length (beta ! j) + c then 1 else 0))
     \<and> np_concatenate_axis1 Aj B = Inr ?Xj
     \<and> np_concatenate_axis1 A0 B = Inr ?Xr"
    and ft: "focusing_transform s f0 beta j =
         (case np_linalg_inv ?Xj of Inl e \<Rightarrow> Inl e | Inr V \<Rightarrow> np_dot ?Xr V)"
    by blast
  have prod: "nrows T = M s \<and> ncols T = M s
         \<and> (\<forall>a<M s. \<forall>b<M s. (\<Sum>k<M s. ent T a k * ent ?Xj k b) = ent ?Xr a b)"
    if t: "focusing_transform s f0 beta j = Inr T" for T
  proof -
    from t ft obtain V where v: "np_linalg_inv ?Xj = Inr V" and d: "np_dot ?Xr V = Inr T"
      by (cases "np_linalg_inv ?Xj") simp_all
    from np_linalg_inv_sound [OF wf_augmented v] have sV: "ncols V = M s"
      by (simp add: nrows_augmented)
    from np_dot_Inr [OF d] sV have "nrows T = M s" "ncols T = M s"
      by (simp_all add: nrows_mk_mat ncols_mk_mat nrows_augmented)
    moreover have "\<forall>a<M s. \<forall>b<M s. (\<Sum>k<M s. ent T a k * ent ?Xj k b) = ent ?Xr a b"
      using dot_inverse_left [OF v wf_augmented nrows_augmented nrows_augmented ncols_augmented d]
      by blast
    ultimately show ?thesis by simp
  qed
  from u ft prod show ?thesis
    by (intro exI [of _ Aj] exI [of _ A0] exI [of _ B]) blast
qed

theorem focusing_transform_augmented_witness:
  "Suc 0 < length [[], [2::nat]]
   \<and> length ([[], [2::nat]] ! Suc 0) \<le> M ex_cssm
   \<and> freq_bins ex_cssm ! Suc 0 < dim0 (mode_vec ex_cssm)
   \<and> 0 < dim0 (mode_vec ex_cssm)
   \<and> list_all (\<lambda>d. d < dim2 (mode_vec ex_cssm)) ([[], [2::nat]] ! Suc 0)
   \<and> dim1 (mode_vec ex_cssm) = M ex_cssm
   \<and> augmented_basis ex_mode_vec (Suc 0) [2] 2 = Mat 2 2 [[1, 0], [2, 1]]
   \<and> augmented_basis ex_mode_vec 0 [2] 2 = Mat 2 2 [[1, 0], [\<i>, 1]]
   \<and> np_linalg_inv (Mat 2 2 [[1, 0], [2, 1]]) = Inr (Mat 2 2 [[1, 0], [- 2, 1]])
   \<and> focusing_transform ex_cssm 0 [[], [2]] (Suc 0) = Inr (Mat 2 2 [[1, 0], [\<i> - 2, 1]])"
proof -
  let ?beta = "[[], [2::nat]]"
  have h1: "Suc 0 < length ?beta" by simp
  have h2: "length (?beta ! Suc 0) \<le> M ex_cssm" by (simp add: ex_cssm_def)
  have h3: "freq_bins ex_cssm ! Suc 0 < dim0 (mode_vec ex_cssm)"
    by (simp add: ex_cssm_def ex_mode_vec_def)
  have h4: "0 < dim0 (mode_vec ex_cssm)" by (simp add: ex_cssm_def ex_mode_vec_def)
  have h5: "\<forall>d\<in>set (?beta ! Suc 0). d < dim2 (mode_vec ex_cssm)"
    by (simp add: ex_cssm_def ex_mode_vec_def)
  then have h5': "list_all (\<lambda>d. d < dim2 (mode_vec ex_cssm)) (?beta ! Suc 0)"
    by (simp add: list_all_iff)
  have h6: "dim1 (mode_vec ex_cssm) = M ex_cssm" by (simp add: ex_cssm_def ex_mode_vec_def)
  have fb: "mode_vec ex_cssm = ex_mode_vec" "freq_bins ex_cssm ! Suc 0 = Suc 0" "M ex_cssm = 2"
    "?beta ! Suc 0 = [2]"
    by (simp_all add: ex_cssm_def)
  have x: "augmented_basis ex_mode_vec (Suc 0) [2] 2 = Mat 2 2 [[1, 0], [2, 1]]"
    and x0: "augmented_basis ex_mode_vec 0 [2] 2 = Mat 2 2 [[1, 0], [\<i>, 1]]"
    by (simp_all add: augmented_basis_def ex_mode_vec_def mk_mat_def ev)
  have iv: "np_linalg_inv (Mat 2 2 [[1, 0], [2, 1]]) = Inr (Mat 2 2 [[1, 0], [- 2, 1]])"
    by (simp add: np_defs inv_defs ev)
  have d: "np_dot (Mat 2 2 [[1, 0], [\<i>, 1]]) (Mat 2 2 [[1, 0], [- 2, 1]])
             = Inr (Mat 2 2 [[1, 0], [\<i> - 2, 1]])"
    by (simp add: np_defs ev)
  from focusing_transform_augmented [OF h1 h2 h3 h4 h5 h6]
  have "focusing_transform ex_cssm 0 ?beta (Suc 0) =
         (case np_linalg_inv (augmented_basis (mode_vec ex_cssm) (freq_bins ex_cssm ! Suc 0)
                 (?beta ! Suc 0) (M ex_cssm)) of
            Inl e \<Rightarrow> Inl e
          | Inr V \<Rightarrow> np_dot (augmented_basis (mode_vec ex_cssm) 0 (?beta ! Suc 0) (M ex_cssm)) V)"
    by blast
  then have "focusing_transform ex_cssm 0 ?beta (Suc 0) = Inr (Mat 2 2 [[1, 0], [\<i> - 2, 1]])"
    by (simp only: fb x x0 iv d sum.case)
  with h1 h2 h3 h4 h5' h6 x x0 iv show ?thesis by blast
qed

lemma focused_covariance_identity:
  assumes "j < length C_hat" and "nrows (C_hat ! j) = m" and "ncols (C_hat ! j) = m"
  shows "\<exists>F. focused_covariance C_hat j (np_identity m) = Inr F \<and> nrows F = m \<and> ncols F = m"
proof -
  have i: "nrows (np_identity m) = m" "ncols (np_identity m) = m"
    by (simp_all add: np_identity_def nrows_mk_mat ncols_mk_mat)
  from np_dot_ok [of "np_identity m" "C_hat ! j"] assms(2) i obtain TC where
    tc: "np_dot (np_identity m) (C_hat ! j) = Inr TC" and "nrows TC = m" and c: "ncols TC = m"
    by (simp add: nrows_mk_mat ncols_mk_mat assms(3))
  have h: "nrows (np_T (np_conjugate (np_identity m))) = m"
    "ncols (np_T (np_conjugate (np_identity m))) = m"
    by (simp_all add: np_T_def np_conjugate_def nrows_mk_mat ncols_mk_mat i)
  from np_dot_ok [of TC "np_T (np_conjugate (np_identity m))"] c h obtain F where
    f: "np_dot TC (np_T (np_conjugate (np_identity m))) = Inr F" and "nrows F = nrows TC"
    and "ncols F = m"
    by (simp add: nrows_mk_mat ncols_mk_mat)
  with tc assms(1) \<open>nrows TC = m\<close> show ?thesis
    by (simp add: focused_covariance_def bind_err_def)
qed

lemma coherent_sum_loop_identity_total:
  assumes "\<forall>j\<in>set js. focusing_transform s f0 beta j = Inr (np_identity m)
             \<and> j < length C_hat \<and> nrows (C_hat ! j) = m \<and> ncols (C_hat ! j) = m"
    and "nrows R0 = m" and "ncols R0 = m"
  shows "\<exists>R. coherent_sum_loop s C_hat f0 beta js R0 = Inr R"
  using assms
proof (induction js arbitrary: R0)
  case Nil
  show ?case by simp
next
  case (Cons j js)
  from Cons.prems(1) have t: "focusing_transform s f0 beta j = Inr (np_identity m)"
    and c: "j < length C_hat" "nrows (C_hat ! j) = m" "ncols (C_hat ! j) = m"
    by simp_all
  from focused_covariance_identity [OF c] obtain F where
    f: "focused_covariance C_hat j (np_identity m) = Inr F" and sh: "nrows F = m" "ncols F = m"
    by blast
  from Cons.prems(2,3) sh obtain R1 where a: "np_add R0 F = Inr R1"
    and s1: "nrows R1 = m" "ncols R1 = m"
    by (simp add: np_add_def nrows_mk_mat ncols_mk_mat)
  from Cons.prems(1) have "\<forall>j\<in>set js. focusing_transform s f0 beta j = Inr (np_identity m)
             \<and> j < length C_hat \<and> nrows (C_hat ! j) = m \<and> ncols (C_hat ! j) = m"
    by simp
  from Cons.IH [OF this s1] obtain R where "coherent_sum_loop s C_hat f0 beta js R1 = Inr R" ..
  with t f a show ?case by (simp add: bind_err_def)
qed

text \<open>
  Claim C9.  Suppose that for every position \<open>j\<close> the steering vectors of the bin
  \<open>freq_bins[j]\<close> for the directions in \<open>beta[j]\<close> are those of the reference bin \<open>f0\<close>.
  Then every focusing transform that is returned is the \<open>M \<times> M\<close> identity matrix, and a
  call of \<^verbatim>\<open>_coherent_sum\<close> that returns has found the identity for every position and
  returns the matrix of the entrywise sums of the \<open>C_hat[j]\<close>.  The call does return it
  when every transform can be computed and the \<open>C_hat[j]\<close> are \<open>M \<times> M\<close>; it raises instead
  when an inversion does, for instance for a direction list with a repeated direction.
\<close>
theorem identical_steering_plain_sum:
  assumes "\<forall>j<length (freq_bins s). \<forall>m<dim1 (mode_vec s). \<forall>d\<in>set (beta ! j).
             at3 (mode_vec s) (freq_bins s ! j) m d = at3 (mode_vec s) f0 m d"
  shows "(\<forall>j<length (freq_bins s). \<forall>T. focusing_transform s f0 beta j = Inr T \<longrightarrow>
            T = np_identity (M s))
       \<and> (\<forall>R. coherent_sum s C_hat f0 beta = Inr R \<longrightarrow>
            (\<forall>j<length (freq_bins s). focusing_transform s f0 beta j = Inr (np_identity (M s)))
          \<and> R = mk_mat (M s) (M s) (\<lambda>a b. \<Sum>j<length (freq_bins s). ent (C_hat ! j) a b))
       \<and> ((\<forall>j<length (freq_bins s). j < length C_hat
               \<and> nrows (C_hat ! j) = M s \<and> ncols (C_hat ! j) = M s
               \<and> (\<exists>T. focusing_transform s f0 beta j = Inr T)) \<longrightarrow>
            coherent_sum s C_hat f0 beta =
              Inr (mk_mat (M s) (M s) (\<lambda>a b. \<Sum>j<length (freq_bins s). ent (C_hat ! j) a b)))"
proof -
  have one: "T = np_identity (M s)"
    if "j < length (freq_bins s)" and "focusing_transform s f0 beta j = Inr T" for j T
    using focusing_identity [OF that(2)] assms that(1) by simp
  have two: "(\<forall>j<length (freq_bins s). focusing_transform s f0 beta j = Inr (np_identity (M s)))
          \<and> R = mk_mat (M s) (M s) (\<lambda>a b. \<Sum>j<length (freq_bins s). ent (C_hat ! j) a b)"
    if r: "coherent_sum s C_hat f0 beta = Inr R" for R
  proof -
    from coherent_sum_Inr [OF r] have
      a: "\<forall>j<length (freq_bins s). \<exists>T. focusing_transform s f0 beta j = Inr T"
      and b: "R = mk_mat (M s) (M s)
               (\<lambda>a b. \<Sum>j<length (freq_bins s).
                   sandwich (projr (focusing_transform s f0 beta j)) (C_hat ! j) a b)"
      by blast+
    have id: "focusing_transform s f0 beta j = Inr (np_identity (M s))"
      if j: "j < length (freq_bins s)" for j
    proof -
      from a j obtain T where t: "focusing_transform s f0 beta j = Inr T" by blast
      with one [OF j t] show ?thesis by simp
    qed
    have "mk_mat (M s) (M s)
               (\<lambda>a b. \<Sum>j<length (freq_bins s).
                   sandwich (projr (focusing_transform s f0 beta j)) (C_hat ! j) a b)
        = mk_mat (M s) (M s) (\<lambda>a b. \<Sum>j<length (freq_bins s). ent (C_hat ! j) a b)"
    proof (rule mk_mat_cong)
      fix a b assume ab: "a < M s" "b < M s"
      show "(\<Sum>j<length (freq_bins s).
                   sandwich (projr (focusing_transform s f0 beta j)) (C_hat ! j) a b)
          = (\<Sum>j<length (freq_bins s). ent (C_hat ! j) a b)"
        by (rule sum.cong) (simp_all add: id sandwich_identity [OF ab])
    qed
    with b id show ?thesis by simp
  qed
  have three: "coherent_sum s C_hat f0 beta =
              Inr (mk_mat (M s) (M s) (\<lambda>a b. \<Sum>j<length (freq_bins s). ent (C_hat ! j) a b))"
    if h: "\<forall>j<length (freq_bins s). j < length C_hat
               \<and> nrows (C_hat ! j) = M s \<and> ncols (C_hat ! j) = M s
               \<and> (\<exists>T. focusing_transform s f0 beta j = Inr T)"
  proof -
    have "\<forall>j\<in>set [0..<length (freq_bins s)].
             focusing_transform s f0 beta j = Inr (np_identity (M s))
             \<and> j < length C_hat \<and> nrows (C_hat ! j) = M s \<and> ncols (C_hat ! j) = M s"
    proof
      fix j assume "j \<in> set [0..<length (freq_bins s)]"
      then have j: "j < length (freq_bins s)" by simp
      with h obtain T where t: "focusing_transform s f0 beta j = Inr T" by blast
      from one [OF j t] t h j
      show "focusing_transform s f0 beta j = Inr (np_identity (M s))
             \<and> j < length C_hat \<and> nrows (C_hat ! j) = M s \<and> ncols (C_hat ! j) = M s"
        by simp
    qed
    from coherent_sum_loop_identity_total [OF this, of "np_zeros (M s) (M s)"]
    obtain R where r: "coherent_sum s C_hat f0 beta = Inr R"
      by (auto simp: coherent_sum_def np_zeros_def nrows_mk_mat ncols_mk_mat)
    with two [OF r] show ?thesis by simp
  qed
  from one two three show ?thesis by blast
qed

theorem identical_steering_plain_sum_witness:
  "list_all (\<lambda>j. list_all (\<lambda>m. list_all (\<lambda>d.
        at3 (mode_vec ex_cssm) (freq_bins ex_cssm ! j) m d = at3 (mode_vec ex_cssm) 0 m d)
          ([[0], [0]] ! j)) [0..<dim1 (mode_vec ex_cssm)]) [0..<length (freq_bins ex_cssm)]
   \<and> at3 (mode_vec ex_cssm) (Suc 0) (Suc 0) 2 \<noteq> at3 (mode_vec ex_cssm) 0 (Suc 0) 2
   \<and> list_all (\<lambda>j. j < length ex_C_hat \<and> nrows (ex_C_hat ! j) = M ex_cssm
                  \<and> ncols (ex_C_hat ! j) = M ex_cssm) [0..<length (freq_bins ex_cssm)]
   \<and> focusing_transform ex_cssm 0 [[0], [0]] 0 = Inr (np_identity 2)
   \<and> focusing_transform ex_cssm 0 [[0], [0]] (Suc 0) = Inr (np_identity 2)
   \<and> coherent_sum ex_cssm ex_C_hat 0 [[0], [0]] =
        Inr (mk_mat 2 2 (\<lambda>a b. \<Sum>j<2. ent (ex_C_hat ! j) a b))
   \<and> coherent_sum ex_cssm ex_C_hat 0 [[0], [0]] = Inr (Mat 2 2 [[3, \<i>], [- \<i>, 3]])"
proof -
  let ?beta = "[[0], [0::nat]]"
  have fb: "length (freq_bins ex_cssm) = 2" "M ex_cssm = 2"
    by (simp_all add: ex_cssm_def)
  have h': "list_all (\<lambda>j. list_all (\<lambda>m. list_all (\<lambda>d.
        at3 (mode_vec ex_cssm) (freq_bins ex_cssm ! j) m d = at3 (mode_vec ex_cssm) 0 m d)
          (?beta ! j)) [0..<dim1 (mode_vec ex_cssm)]) [0..<length (freq_bins ex_cssm)]"
    by (simp add: ex_cssm_def ex_mode_vec_def ev)
  then have h: "\<forall>j<length (freq_bins ex_cssm). \<forall>m<dim1 (mode_vec ex_cssm). \<forall>d\<in>set (?beta ! j).
             at3 (mode_vec ex_cssm) (freq_bins ex_cssm ! j) m d = at3 (mode_vec ex_cssm) 0 m d"
    by (simp add: list_all_iff)
  have ne: "at3 (mode_vec ex_cssm) (Suc 0) (Suc 0) 2 \<noteq> at3 (mode_vec ex_cssm) 0 (Suc 0) 2"
    by (simp add: ex_cssm_def ex_mode_vec_def complex_eq_iff)
  have sh': "list_all (\<lambda>j. j < length ex_C_hat \<and> nrows (ex_C_hat ! j) = M ex_cssm
                  \<and> ncols (ex_C_hat ! j) = M ex_cssm) [0..<length (freq_bins ex_cssm)]"
    by (simp add: ex_cssm_def ex_C_hat_def ev)
  have t0: "\<exists>T. focusing_transform ex_cssm 0 ?beta 0 = Inr T"
    and t1: "\<exists>T. focusing_transform ex_cssm 0 ?beta (Suc 0) = Inr T"
    by (simp_all add: cs_defs ex_defs np_defs inv_defs ev)
  have pre: "\<forall>j<length (freq_bins ex_cssm). j < length ex_C_hat
               \<and> nrows (ex_C_hat ! j) = M ex_cssm \<and> ncols (ex_C_hat ! j) = M ex_cssm
               \<and> (\<exists>T. focusing_transform ex_cssm 0 ?beta j = Inr T)"
  proof (intro allI impI)
    fix j assume j: "j < length (freq_bins ex_cssm)"
    with fb have "j = 0 \<or> j = Suc 0" by arith
    with t0 t1 have "\<exists>T. focusing_transform ex_cssm 0 ?beta j = Inr T" by blast
    moreover from sh' j have "j < length ex_C_hat \<and> nrows (ex_C_hat ! j) = M ex_cssm
                  \<and> ncols (ex_C_hat ! j) = M ex_cssm"
      by (simp add: list_all_iff)
    ultimately show "j < length ex_C_hat
               \<and> nrows (ex_C_hat ! j) = M ex_cssm \<and> ncols (ex_C_hat ! j) = M ex_cssm
               \<and> (\<exists>T. focusing_transform ex_cssm 0 ?beta j = Inr T)" by blast
  qed
  note inst = identical_steering_plain_sum [OF h, of ex_C_hat]
  from inst pre have "coherent_sum ex_cssm ex_C_hat 0 ?beta =
        Inr (mk_mat (M ex_cssm) (M ex_cssm)
               (\<lambda>a b. \<Sum>j<length (freq_bins ex_cssm). ent (ex_C_hat ! j) a b))"
    by blast
  then have r': "coherent_sum ex_cssm ex_C_hat 0 ?beta =
        Inr (mk_mat 2 2 (\<lambda>a b. \<Sum>j<2. ent (ex_C_hat ! j) a b))"
    by (simp only: fb)
  from inst r' have "\<forall>j<length (freq_bins ex_cssm).
            focusing_transform ex_cssm 0 ?beta j = Inr (np_identity (M ex_cssm))"
    by blast
  then have i0: "focusing_transform ex_cssm 0 ?beta 0 = Inr (np_identity 2)"
    and i1: "focusing_transform ex_cssm 0 ?beta (Suc 0) = Inr (np_identity 2)"
    by (simp_all add: fb)
  have r: "coherent_sum ex_cssm ex_C_hat 0 ?beta = Inr (Mat 2 2 [[3, \<i>], [- \<i>, 3]])"
    by (simp add: cs_defs ex_defs np_defs inv_defs ev)
  from h' ne sh' i0 i1 r' r show ?thesis by blast
qed



end
